theory Spec2Isabelle
  imports Main
begin

section \<open>The storage engine of \<open>mandala/_next/storage.py\<close>\<close>

text \<open>
  A shallow embedding of the class \<open>Storage\<close>: saving and loading of refs, the call
  ledger, the memoising \<open>call_internal\<close> with its structural \<open>construct\<close> and
  \<open>destruct\<close>, and the reachability sweep.  Every method that reads or writes a table is a
  function from the storage to a result and the storage afterwards; every \<open>raise\<close> and
  failing \<open>assert\<close> of the source is a value of the type \<open>error\<close>.
\<close>

subsection \<open>Values, refs and types\<close>

text \<open>
  Python values as far as the engine looks into them: a value is a \<open>Ref\<close>
  (\<open>isinstance(val, Ref)\<close>), a list that \<open>enumerate\<close> walks, or an opaque atom.
  A ref has the attributes the source reads: \<open>cid\<close>, \<open>hid\<close>, \<open>in_memory\<close> and
  \<open>obj\<close>, the payload of an \<open>AtomRef\<close> and the children of a \<open>ListRef\<close>.
\<close>

datatype ref =
    AtomRef (cid: string) (hid: string) (in_memory: bool) (obj: pyval)
  | ListRef (cid: string) (hid: string) (in_memory: bool) (elts: "ref list")
and pyval =
    PyNone
  | PyInt int
  | PyList "pyval list"
  | PyRef ref

text \<open>
  The declared type of an input or output position: atomic, an ordered sequence, or a
  composite kind for which the engine has no structural builder.
\<close>

datatype tp = AtomType | ListType (elt: tp) | OtherType

datatype error =
    KeyError string
  | IndexError
  | TypeError
  | AssertionError
  | RecursionError
  | NotImplementedError string
  | ValueError string "string list"
  | OpError string

text \<open>
  \<open>NotImplementedError\<close> carries the message of the \<open>raise\<close>; \<open>ValueError\<close> carries
  the two things the source formats into its message, the name of the function and the
  changed inputs; \<open>OpError\<close> is an exception raised by the function of an op itself;
  \<open>RecursionError\<close> is what Python raises when calls nest deeper than the interpreter
  allows.  The two failures the specification names by their role:
\<close>

definition ContextStateError :: error where
  "ContextStateError = NotImplementedError ''Method not supported while in a context.''"

definition SideEffectError :: "string \<Rightarrow> string list \<Rightarrow> error" where
  "SideEffectError fname changed_inputs = ValueError fname changed_inputs"

text \<open>
  Modelled from the spec: the methods of \<open>Ref\<close> (module \<open>model\<close>, not among the
  sources).  A detached \<open>AtomRef\<close> carries \<open>cid\<close> and \<open>hid\<close> only; a detached
  \<open>ListRef\<close> carries children that are themselves detached, recursively; the shape of a ref
  is its detached, payload-less copy; an attached ref is in memory and holds the given
  payload.
\<close>

fun detached :: "ref \<Rightarrow> ref" where
  "detached (AtomRef c h m v) = AtomRef c h False PyNone"
| "detached (ListRef c h m es) = ListRef c h False (map detached es)"

definition shape :: "ref \<Rightarrow> ref" where
  "shape r = detached r"

definition shallow_copy :: "ref \<Rightarrow> ref" where
  "shallow_copy r = r"

fun refs_of :: "pyval \<Rightarrow> ref list" where
  "refs_of (PyList vs) = concat (map (\<lambda>v. case v of PyRef r \<Rightarrow> [r] | _ \<Rightarrow> []) vs)"
| "refs_of v = []"

fun attached :: "ref \<Rightarrow> pyval \<Rightarrow> ref" where
  "attached (AtomRef c h m v) v' = AtomRef c h True v'"
| "attached (ListRef c h m es) v' = ListRef c h True (refs_of v')"

fun with_hid :: "ref \<Rightarrow> string \<Rightarrow> ref" where
  "with_hid (AtomRef c h m v) h' = AtomRef c h' m v"
| "with_hid (ListRef c h m es) h' = ListRef c h' m es"

text \<open>What \<open>ref.obj\<close> reads: the payload of an atom, the list of children of a list.\<close>

fun obj_of :: "ref \<Rightarrow> pyval" where
  "obj_of (AtomRef c h m v) = v"
| "obj_of (ListRef c h m es) = PyList (map PyRef es)"

text \<open>
  A ref is detached when it is what \<open>detached\<close> returns: out of memory, an atom without
  payload, a list of children that are detached themselves.
\<close>

fun is_detached :: "ref \<Rightarrow> bool" where
  "is_detached (AtomRef c h m v) = (\<not> m \<and> v = PyNone)"
| "is_detached (ListRef c h m es) = (\<not> m \<and> list_all is_detached es)"

text \<open>
  What a lazy load returns from a table of detached shapes: a detached atom, or a list that
  is marked in memory and holds the detached shapes of its children.
\<close>

fun lazily_loaded :: "ref \<Rightarrow> bool" where
  "lazily_loaded (AtomRef c h m v) = (\<not> m \<and> v = PyNone)"
| "lazily_loaded (ListRef c h m es) = (m \<and> list_all is_detached es)"

subsection \<open>Cached tables\<close>

text \<open>
  Modelled from the spec: \<open>CachedDictStorage\<close> (module \<open>storage_utils\<close>, not among the
  sources), the write-back cache in front of a persistent table.  \<open>get\<close> returns the cached
  value, or else loads it from the persistent table and inserts it into the cache, and
  fails when the key is in neither; \<open>set\<close> writes into the cache and marks the key dirty;
  \<open>exists\<close> looks in both; \<open>drop\<close> removes the key from both; \<open>commit\<close> writes the dirty
  cache entries to the persistent table and clears the markers.
\<close>

record 'v cached_dict =
  cache :: "string \<rightharpoonup> 'v"
  persistent :: "string \<rightharpoonup> 'v"
  dirty :: "string set"

definition empty_dict :: "'v cached_dict" where
  "empty_dict = \<lparr>cache = Map.empty, persistent = Map.empty, dirty = {}\<rparr>"

definition dict_exists :: "'v cached_dict \<Rightarrow> string \<Rightarrow> bool" where
  "dict_exists t k = (cache t k \<noteq> None \<or> persistent t k \<noteq> None)"

definition dict_get :: "'v cached_dict \<Rightarrow> string \<Rightarrow> (error + 'v) \<times> 'v cached_dict" where
  "dict_get t k =
     (case cache t k of
        Some v \<Rightarrow> (Inr v, t)
      | None \<Rightarrow>
          (case persistent t k of
             Some v \<Rightarrow> (Inr v, t\<lparr>cache := (cache t)(k \<mapsto> v)\<rparr>)
           | None \<Rightarrow> (Inl (KeyError k), t)))"

definition dict_set :: "'v cached_dict \<Rightarrow> string \<Rightarrow> 'v \<Rightarrow> 'v cached_dict" where
  "dict_set t k v = t\<lparr>cache := (cache t)(k \<mapsto> v), dirty := insert k (dirty t)\<rparr>"

definition dict_drop :: "'v cached_dict \<Rightarrow> string \<Rightarrow> 'v cached_dict" where
  "dict_drop t k = t\<lparr>cache := (cache t)(k := None), persistent := (persistent t)(k := None)\<rparr>"

definition dict_commit :: "'v cached_dict \<Rightarrow> 'v cached_dict" where
  "dict_commit t = t\<lparr>persistent := persistent t ++ (cache t |` dirty t), dirty := {}\<rparr>"

text \<open>What a reader of the table sees: the cache in front of the persistent rows.\<close>

definition view :: "'v cached_dict \<Rightarrow> string \<rightharpoonup> 'v" where
  "view t = persistent t ++ cache t"

subsection \<open>The call ledger and the external collaborators\<close>

text \<open>
  Modelled from the spec: a row of the table \<open>calls\<close> (classes \<open>SQLiteCallStorage\<close> and
  \<open>CachedCallStorage\<close> of \<open>storage_utils\<close>, not among the sources): the content id, the
  name of the op, the input and output hids by name, and the content ids of the same refs,
  which the reachability queries read from the ledger.
\<close>

record call_data =
  cd_op_name :: string
  cd_cid :: string
  cd_hid :: string
  cd_input_hids :: "(string \<times> string) list"
  cd_output_hids :: "(string \<times> string) list"
  cd_input_cids :: "(string \<times> string) list"
  cd_output_cids :: "(string \<times> string) list"

text \<open>
  Serialisation and hashing are supplied from outside the engine; the development is
  parametric in them.  \<open>content_hash\<close> is the content id \<open>wrap_atom\<close> gives a raw value,
  \<open>default_hid\<close> the history id it gives when none is supplied; \<open>history_hash\<close> and
  \<open>call_content_hash\<close> key a call by the name and version of its op and its inputs' hids,
  respectively cids; \<open>output_hash\<close> derives the hid of a named output from the hid of its
  call; \<open>list_cid\<close> and \<open>list_hid\<close> are the ids the structural list builder gives a list of
  children.  The last three are the queries of the durable call ledger (class
  \<open>SQLiteCallStorage\<close>) that the engine passes on: the dependents of a set of calls, and
  the calls that created, respectively consumed, the given refs.
\<close>

record env =
  serialize :: "pyval \<Rightarrow> string"
  deserialize :: "string \<Rightarrow> pyval"
  content_hash :: "pyval \<Rightarrow> string"
  default_hid :: "pyval \<Rightarrow> string"
  history_hash :: "string \<Rightarrow> nat \<Rightarrow> (string \<times> string) list \<Rightarrow> string"
  call_content_hash :: "string \<Rightarrow> nat \<Rightarrow> (string \<times> string) list \<Rightarrow> string"
  output_hash :: "string \<Rightarrow> string \<Rightarrow> string"
  list_cid :: "string list \<Rightarrow> string"
  list_hid :: "string list \<Rightarrow> string"
  get_dependents :: "(string \<rightharpoonup> call_data) \<Rightarrow> string set \<Rightarrow> string set \<Rightarrow> string set \<times> string set"
  get_creator_hids :: "(string \<rightharpoonup> call_data) \<Rightarrow> string list \<Rightarrow> string list"
  get_consumer_hids :: "(string \<rightharpoonup> call_data) \<Rightarrow> string list \<Rightarrow> string list"

subsection \<open>Ops, calls and the storage\<close>

text \<open>
  Modelled from the spec: the class \<open>Op\<close> (module \<open>model\<close>, not among the sources), a
  named, versioned function that is either a user op or a structural op.  The function of
  an op takes the named inputs and either raises or returns its value together with the
  inputs it has mutated in place, each under its name with its new value; a pure function
  returns no such entry.  \<open>op_parse_returns\<close> is what \<open>parse_returns\<close> and
  \<open>Type.from_annotation\<close> make of a returned value with the signature, \<open>nout\<close> and
  output names of the op: the named outputs and their declared types.  A detached op, the
  descriptor kept in the table \<open>ops\<close>, has no function.
\<close>

record op =
  op_name :: string
  op_version :: nat
  op_f :: "((string \<times> pyval) list \<Rightarrow> error + pyval \<times> (string \<times> pyval) list) option"
  op_structural :: bool
  op_parse_returns :: "pyval \<Rightarrow> error + (string \<times> pyval) list \<times> (string \<times> tp) list"

definition op_detached :: "op \<Rightarrow> op" where
  "op_detached p = p\<lparr>op_f := None\<rparr>"

definition get_call_history_id :: "env \<Rightarrow> op \<Rightarrow> (string \<times> ref) list \<Rightarrow> string" where
  "get_call_history_id env p inputs =
     history_hash env (op_name p) (op_version p) (map (\<lambda>(k, v). (k, hid v)) inputs)"

definition get_call_content_id :: "env \<Rightarrow> op \<Rightarrow> (string \<times> ref) list \<Rightarrow> string" where
  "get_call_content_id env p inputs =
     call_content_hash env (op_name p) (op_version p) (map (\<lambda>(k, v). (k, cid v)) inputs)"

definition get_output_history_ids :: "env \<Rightarrow> string \<Rightarrow> string list \<Rightarrow> (string \<times> string) list" where
  "get_output_history_ids env call_history_id output_names =
     map (\<lambda>k. (k, output_hash env call_history_id k)) output_names"

text \<open>
  Modelled from the spec: \<open>wrap_atom\<close> (module \<open>model\<close>) wraps a raw value as an
  \<open>AtomRef\<close> in memory, with the hash of the value as its content id and the given
  history id, or one of its own when none is given.
\<close>

definition wrap_atom :: "env \<Rightarrow> pyval \<Rightarrow> string option \<Rightarrow> ref" where
  "wrap_atom env v history_id =
     AtomRef (content_hash env v)
       (case history_id of None \<Rightarrow> default_hid env v | Some h \<Rightarrow> h) True v"

text \<open>A call: its op, content id, history id, and named input and output refs.\<close>

record call =
  call_op :: op
  call_cid :: string
  call_hid :: string
  call_inputs :: "(string \<times> ref) list"
  call_outputs :: "(string \<times> ref) list"

definition call_data_of :: "call \<Rightarrow> call_data" where
  "call_data_of c =
     \<lparr>cd_op_name = op_name (call_op c), cd_cid = call_cid c, cd_hid = call_hid c,
      cd_input_hids = map (\<lambda>(k, v). (k, hid v)) (call_inputs c),
      cd_output_hids = map (\<lambda>(k, v). (k, hid v)) (call_outputs c),
      cd_input_cids = map (\<lambda>(k, v). (k, cid v)) (call_inputs c),
      cd_output_cids = map (\<lambda>(k, v). (k, cid v)) (call_outputs c)\<rparr>"

text \<open>
  The storage: the four cached tables (\<open>cache (calls s)\<close> is \<open>self.call_cache\<close> and
  \<open>persistent (calls s)\<close> is \<open>self.call_storage\<close>), the process-wide
  \<open>Context.current_context\<close>, and a record of every invocation of the function of an op,
  by the name of the op and the history id of the call, which only \<open>call_internal\<close>
  extends.
\<close>

record storage =
  calls :: "call_data cached_dict"
  atoms :: "string cached_dict"
  shapes :: "ref cached_dict"
  ops :: "op cached_dict"
  current_context :: bool
  invocations :: "(string \<times> string) list"

definition empty_storage :: storage where
  "empty_storage =
     \<lparr>calls = empty_dict, atoms = empty_dict, shapes = empty_dict, ops = empty_dict,
      current_context = False, invocations = []\<rparr>"

definition in_context :: "storage \<Rightarrow> bool" where
  "in_context s = current_context s"

subsection \<open>Results and state\<close>

text \<open>
  A method that may raise and may touch the storage returns its result, or the error, and
  the storage as it has become.
\<close>

type_synonym 'a st = "storage \<Rightarrow> (error + 'a) \<times> storage"

definition returnM :: "'a \<Rightarrow> 'a st" where
  "returnM x = (\<lambda>s. (Inr x, s))"

definition raiseM :: "error \<Rightarrow> 'a st" where
  "raiseM e = (\<lambda>s. (Inl e, s))"

definition bindM :: "'a st \<Rightarrow> ('a \<Rightarrow> 'b st) \<Rightarrow> 'b st" where
  "bindM m g = (\<lambda>s. case m s of (Inl e, s') \<Rightarrow> (Inl e, s') | (Inr x, s') \<Rightarrow> g x s')"

text \<open>The reads \<open>self.shapes[hid]\<close>, \<open>self.atoms[cid]\<close> and \<open>self.ops[name]\<close>.\<close>

definition shapes_get :: "string \<Rightarrow> ref st" where
  "shapes_get h = (\<lambda>s. case dict_get (shapes s) h of (r, t) \<Rightarrow> (r, s\<lparr>shapes := t\<rparr>))"

definition atoms_get :: "string \<Rightarrow> string st" where
  "atoms_get c = (\<lambda>s. case dict_get (atoms s) c of (r, t) \<Rightarrow> (r, s\<lparr>atoms := t\<rparr>))"

definition ops_get :: "string \<Rightarrow> op st" where
  "ops_get k = (\<lambda>s. case dict_get (ops s) k of (r, t) \<Rightarrow> (r, s\<lparr>ops := t\<rparr>))"

definition getsM :: "(storage \<Rightarrow> 'a) \<Rightarrow> 'a st" where
  "getsM g = (\<lambda>s. (Inr (g s), s))"

definition liftE :: "error + 'a \<Rightarrow> 'a st" where
  "liftE r = (case r of Inl e \<Rightarrow> raiseM e | Inr x \<Rightarrow> returnM x)"

text \<open>The read \<open>d[k]\<close> of a dictionary held as the list of its items.\<close>

definition lookup :: "(string \<times> 'a) list \<Rightarrow> string \<Rightarrow> 'a st" where
  "lookup d k = (case map_of d k of None \<Rightarrow> raiseM (KeyError k) | Some v \<Rightarrow> returnM v)"

text \<open>
  Entering the storage as a context manager sets the current context; leaving it clears
  the context and commits (\<open>commit\<close> is defined with the calls interface below).
\<close>

definition enter :: "storage \<Rightarrow> storage" where
  "enter s = s\<lparr>current_context := True\<rparr>"

subsection \<open>The refs interface\<close>

text \<open>
  \<open>save_ref\<close>: nothing happens when the hid is already in \<open>shapes\<close>; an atom stores its
  serialised payload under its cid and its detached copy under its hid; a list stores its
  shape and then saves every child.
\<close>

fun save_ref :: "env \<Rightarrow> ref \<Rightarrow> storage \<Rightarrow> storage" where
  "save_ref env (AtomRef c h m v) s =
     (if dict_exists (shapes s) h then s
      else s\<lparr>atoms := dict_set (atoms s) c (serialize env v),
             shapes := dict_set (shapes s) h (detached (AtomRef c h m v))\<rparr>)"
| "save_ref env (ListRef c h m es) s =
     (if dict_exists (shapes s) h then s
      else fold (save_ref env) es (s\<lparr>shapes := dict_set (shapes s) h (shape (ListRef c h m es))\<rparr>))"

text \<open>
  \<open>load_ref\<close> looks the shape up by hid and, for a list, loads the children by their
  hids in turn, whatever the table holds under them: the nesting is not bounded by the
  shape at hand, so the first argument bounds it, and the load fails with
  \<open>RecursionError\<close> when the bound is reached.  The list of loaded children is built and
  dropped: the source attaches \<open>shape.obj\<close>, not \<open>obj\<close>.
\<close>

fun load_ref :: "nat \<Rightarrow> env \<Rightarrow> string \<Rightarrow> bool \<Rightarrow> ref st"
  and load_elts :: "nat \<Rightarrow> env \<Rightarrow> ref list \<Rightarrow> bool \<Rightarrow> ref list st" where
  "load_ref 0 env h lazy = raiseM RecursionError"
| "load_ref (Suc n) env h lazy =
     bindM (shapes_get h) (\<lambda>shape.
       case shape of
         AtomRef c h' m v \<Rightarrow>
           if lazy then returnM (shallow_copy shape)
           else bindM (atoms_get c) (\<lambda>bytes. returnM (attached shape (deserialize env bytes)))
       | ListRef c h' m es \<Rightarrow>
           bindM (load_elts n env es lazy) (\<lambda>obj. returnM (attached shape (obj_of shape))))"
| "load_elts n env [] lazy = returnM []"
| "load_elts n env (e # es) lazy =
     bindM (load_ref n env (hid e) lazy) (\<lambda>r.
     bindM (load_elts n env es lazy) (\<lambda>rs. returnM (r # rs)))"

text \<open>
  The two internal drops, with the check the source makes when \<open>verify\<close> is set.
  \<open>exists_ref_hid\<close> of the durable ledger is read off its rows.
\<close>

definition hids_in_calls :: "(string \<rightharpoonup> call_data) \<Rightarrow> string set" where
  "hids_in_calls t = (\<Union>d \<in> ran t. snd ` set (cd_input_hids d @ cd_output_hids d))"

definition cids_in_calls :: "(string \<rightharpoonup> call_data) \<Rightarrow> string set" where
  "cids_in_calls t = (\<Union>d \<in> ran t. snd ` set (cd_input_cids d @ cd_output_cids d))"

definition drop_ref_hid :: "string \<Rightarrow> bool \<Rightarrow> unit st" where
  "drop_ref_hid h verify =
     (\<lambda>s. if verify \<and> h \<in> hids_in_calls (persistent (calls s)) then (Inl AssertionError, s)
          else (Inr (), s\<lparr>shapes := dict_drop (shapes s) h\<rparr>))"

definition drop_ref :: "string \<Rightarrow> bool \<Rightarrow> unit st" where
  "drop_ref c verify =
     (\<lambda>s. if verify \<and> c \<in> cid ` ran (persistent (shapes s)) then (Inl AssertionError, s)
          else (Inr (), s\<lparr>atoms := dict_drop (atoms s) c\<rparr>))"

text \<open>
  A loop \<open>for k in keys: table.drop(k)\<close> over a set of keys, in whatever order the set is
  walked, leaves the table without these keys.
\<close>

definition dict_drop_all :: "'v cached_dict \<Rightarrow> string set \<Rightarrow> 'v cached_dict" where
  "dict_drop_all t ks = t\<lparr>cache := cache t |` (- ks), persistent := persistent t |` (- ks)\<rparr>"

subsection \<open>The calls interface\<close>

definition exists_call :: "storage \<Rightarrow> string \<Rightarrow> bool" where
  "exists_call s h = dict_exists (calls s) h"

definition save_call :: "env \<Rightarrow> call \<Rightarrow> storage \<Rightarrow> storage" where
  "save_call env c s =
     (if dict_exists (calls s) (call_hid c) then s
      else
        let s1 = (if \<not> dict_exists (ops s) (op_name (call_op c))
                  then s\<lparr>ops := dict_set (ops s) (op_name (call_op c)) (op_detached (call_op c))\<rparr>
                  else s);
            s2 = fold (save_ref env) (map snd (call_inputs c @ call_outputs c)) s1
        in s2\<lparr>calls := dict_set (calls s2) (call_hid c) (call_data_of c)\<rparr>)"

text \<open>
  \<open>get_call\<close> reads the row from the call cache when it is there and from the durable
  ledger otherwise, then the op descriptor, then loads the input and the output refs.
\<close>

definition get_call_data :: "string \<Rightarrow> call_data st" where
  "get_call_data h =
     (\<lambda>s. case cache (calls s) h of
            Some d \<Rightarrow> (Inr d, s)
          | None \<Rightarrow>
              (case persistent (calls s) h of
                 Some d \<Rightarrow> (Inr d, s)
               | None \<Rightarrow> (Inl (KeyError h), s)))"

fun load_refs :: "nat \<Rightarrow> env \<Rightarrow> (string \<times> string) list \<Rightarrow> bool \<Rightarrow> (string \<times> ref) list st" where
  "load_refs n env [] lazy = returnM []"
| "load_refs n env ((k, h) # hs) lazy =
     bindM (load_ref n env h lazy) (\<lambda>r.
     bindM (load_refs n env hs lazy) (\<lambda>rs. returnM ((k, r) # rs)))"

definition get_call :: "nat \<Rightarrow> env \<Rightarrow> string \<Rightarrow> bool \<Rightarrow> call st" where
  "get_call n env h lazy =
     bindM (get_call_data h) (\<lambda>call_data.
     bindM (ops_get (cd_op_name call_data)) (\<lambda>p.
     bindM (load_refs n env (cd_input_hids call_data) lazy) (\<lambda>inputs.
     bindM (load_refs n env (cd_output_hids call_data) lazy) (\<lambda>outputs.
     returnM \<lparr>call_op = p, call_cid = cd_cid call_data, call_hid = cd_hid call_data,
              call_inputs = inputs, call_outputs = outputs\<rparr>))))"

definition drop_calls :: "env \<Rightarrow> string set \<Rightarrow> bool \<Rightarrow> storage \<Rightarrow> storage" where
  "drop_calls env hids delete_dependents s =
     (let hids' = (if delete_dependents
                   then hids \<union> snd (get_dependents env (persistent (calls s)) {} hids)
                   else hids)
      in s\<lparr>calls := dict_drop_all (calls s) hids'\<rparr>)"

definition commit :: "storage \<Rightarrow> storage" where
  "commit s =
     s\<lparr>atoms := dict_commit (atoms s), shapes := dict_commit (shapes s),
       ops := dict_commit (ops s), calls := dict_commit (calls s)\<rparr>"

subsection \<open>Provenance and reachability queries\<close>

fun get_calls :: "nat \<Rightarrow> env \<Rightarrow> string list \<Rightarrow> call list st" where
  "get_calls n env [] = returnM []"
| "get_calls n env (h # hs) =
     bindM (get_call n env h True) (\<lambda>c.
     bindM (get_calls n env hs) (\<lambda>cs. returnM (c # cs)))"

definition get_creators :: "nat \<Rightarrow> env \<Rightarrow> string list \<Rightarrow> call list st" where
  "get_creators n env ref_hids =
     (\<lambda>s. if in_context s
          then (Inl (NotImplementedError ''Method not supported while in a context.''), s)
          else get_calls n env (get_creator_hids env (persistent (calls s)) ref_hids) s)"

definition get_consumers :: "nat \<Rightarrow> env \<Rightarrow> string list \<Rightarrow> call list st" where
  "get_consumers n env ref_hids =
     (\<lambda>s. if in_context s
          then (Inl (NotImplementedError ''Method not supported while in a context.''), s)
          else get_calls n env (get_consumer_hids env (persistent (calls s)) ref_hids) s)"

definition get_orphans :: "storage \<Rightarrow> error + string set" where
  "get_orphans s =
     (if in_context s then Inl (NotImplementedError ''Method not supported while in a context.'')
      else
        let all_hids = dom (persistent (shapes s));
            in_calls = hids_in_calls (persistent (calls s))
        in Inr (all_hids - in_calls))"

definition get_unreferenced_cids :: "storage \<Rightarrow> error + string set" where
  "get_unreferenced_cids s =
     (if in_context s then Inl (NotImplementedError ''Method not supported while in a context.'')
      else
        let all_cids = dom (persistent (atoms s));
            in_calls = cids_in_calls (persistent (calls s));
            cids_in_shapes = cid ` ran (persistent (shapes s))
        in Inr ((all_cids - in_calls) - cids_in_shapes))"

text \<open>
  \<open>cleanup_refs\<close>: the orphaned hids are computed and dropped from \<open>shapes\<close>; the
  unreferenced cids are computed on the storage as the first sweep has left it, and dropped
  from \<open>atoms\<close>.  Both loops call the internal drops with \<open>verify\<close> unset.
\<close>

definition cleanup_refs :: "unit st" where
  "cleanup_refs =
     (\<lambda>s. case get_orphans s of
            Inl e \<Rightarrow> (Inl e, s)
          | Inr orphans \<Rightarrow>
              let s1 = s\<lparr>shapes := dict_drop_all (shapes s) orphans\<rparr> in
              (case get_unreferenced_cids s1 of
                 Inl e \<Rightarrow> (Inl e, s1)
               | Inr unreferenced_cids \<Rightarrow>
                   (Inr (), s1\<lparr>atoms := dict_drop_all (atoms s1) unreferenced_cids\<rparr>)))"

subsection \<open>Unwrapping\<close>

text \<open>
  \<open>_unwrap_atom\<close> loads an atom that is not in memory and reads its payload.
  Modelled from the spec: \<open>recurse_on_ref_collections\<close> (module \<open>model\<close>) applies it to
  the atoms of a ref and rebuilds the lists around them, which gives the raw value.
\<close>

definition unwrap_atom :: "nat \<Rightarrow> env \<Rightarrow> ref \<Rightarrow> pyval st" where
  "unwrap_atom n env r =
     (if \<not> in_memory r
      then bindM (load_ref n env (hid r) False) (\<lambda>r'. returnM (obj_of r'))
      else returnM (obj_of r))"

fun unwrap :: "nat \<Rightarrow> env \<Rightarrow> ref \<Rightarrow> pyval st"
  and unwrap_elts :: "nat \<Rightarrow> env \<Rightarrow> ref list \<Rightarrow> pyval list st" where
  "unwrap n env (AtomRef c h m v) = unwrap_atom n env (AtomRef c h m v)"
| "unwrap n env (ListRef c h m es) = bindM (unwrap_elts n env es) (\<lambda>vs. returnM (PyList vs))"
| "unwrap_elts n env [] = returnM []"
| "unwrap_elts n env (e # es) =
     bindM (unwrap n env e) (\<lambda>v.
     bindM (unwrap_elts n env es) (\<lambda>vs. returnM (v # vs)))"

fun unwrap_inputs :: "nat \<Rightarrow> env \<Rightarrow> (string \<times> ref) list \<Rightarrow> (string \<times> pyval) list st" where
  "unwrap_inputs n env [] = returnM []"
| "unwrap_inputs n env ((k, v) # rest) =
     bindM (unwrap n env v) (\<lambda>raw.
     bindM (unwrap_inputs n env rest) (\<lambda>raws. returnM ((k, raw) # raws)))"

subsection \<open>Structural ops\<close>

text \<open>The decimal numeral of an index, as the f-string \<open>elts_{i}\<close> prints it.\<close>

function string_of_nat :: "nat \<Rightarrow> string" where
  "string_of_nat n =
     (if n < 10 then [char_of (48 + n)]
      else string_of_nat (n div 10) @ [char_of (48 + n mod 10)])"
  by pat_completeness auto
termination
  by (relation "measure id") auto

text \<open>
  Modelled from the spec: the two structural ops (module \<open>model\<close>).  \<open>__make_list__\<close>
  builds a list ref from its positional elements, with the hash of the children's cids as
  its content id; \<open>__get_item__\<close> returns the element of a list ref at the index an atom
  holds.  Both name their single output \<open>output_0\<close>, the key \<open>destruct\<close> reads.
\<close>

definition make_list_op :: "env \<Rightarrow> op" where
  "make_list_op env =
     \<lparr>op_name = ''__make_list__'', op_version = 0,
      op_f = Some (\<lambda>kwargs.
        let elts = refs_of (PyList (map snd kwargs))
        in Inr (PyRef (ListRef (list_cid env (map cid elts)) (list_hid env (map hid elts)) True elts), [])),
      op_structural = True,
      op_parse_returns = (\<lambda>returns. Inr ([(''output_0'', returns)], [(''output_0'', ListType AtomType)]))\<rparr>"

definition get_item_op :: op where
  "get_item_op =
     \<lparr>op_name = ''__get_item__'', op_version = 0,
      op_f = Some (\<lambda>kwargs.
        case (map_of kwargs ''obj'', map_of kwargs ''attr'') of
          (Some (PyRef (ListRef c h m es)), Some (PyRef (AtomRef c' h' m' (PyInt i)))) \<Rightarrow>
            if 0 \<le> i \<and> nat i < length es then Inr (PyRef (es ! nat i), []) else Inl IndexError
        | _ \<Rightarrow> Inl TypeError),
      op_structural = True,
      op_parse_returns = (\<lambda>returns. Inr ([(''output_0'', returns)], [(''output_0'', AtomType)]))\<rparr>"

text \<open>The three helpers of \<open>construct\<close>; only the sequence type has a builder.\<close>

definition get_struct_builder :: "env \<Rightarrow> tp \<Rightarrow> error + op" where
  "get_struct_builder env t =
     (case t of ListType et \<Rightarrow> Inr (make_list_op env) | _ \<Rightarrow> Inl (NotImplementedError []))"

definition get_struct_inputs :: "tp \<Rightarrow> pyval \<Rightarrow> error + (string \<times> pyval) list" where
  "get_struct_inputs t val =
     (case t of
        ListType et \<Rightarrow>
          (case val of
             PyList vs \<Rightarrow> Inr (map (\<lambda>(i, v). (''elts_'' @ string_of_nat i, v)) (enumerate 0 vs))
           | _ \<Rightarrow> Inl TypeError)
      | _ \<Rightarrow> Inl (NotImplementedError []))"

definition get_struct_tps :: "tp \<Rightarrow> (string \<times> pyval) list \<Rightarrow> error + (string \<times> tp) list" where
  "get_struct_tps t struct_inputs =
     (case t of
        ListType et \<Rightarrow> Inr (map (\<lambda>i. (''elts_'' @ string_of_nat i, et)) [0..<length struct_inputs])
      | _ \<Rightarrow> Inl (NotImplementedError []))"

subsection \<open>Calling an op\<close>

text \<open>
  Applying the function of an op leaves its mark in \<open>invocations\<close>, whether it returns or
  raises.
\<close>

definition invoke :: "op \<Rightarrow> string \<Rightarrow> (error + 'a) \<Rightarrow> 'a st" where
  "invoke p h res = (\<lambda>s. (res, s\<lparr>invocations := invocations s @ [(op_name p, h)]\<rparr>))"

text \<open>
  \<open>call_internal\<close>, \<open>construct\<close> and \<open>destruct\<close> call each other.  Each is given here
  by its body, with the methods it calls as parameters, and the three are then tied
  together; their first argument bounds the nesting of the calls, and a call that would
  nest deeper fails with \<open>RecursionError\<close>.  The loops over the items of a dictionary are
  functions on the list of items.
\<close>

fun wrap_inputs :: "(tp \<Rightarrow> pyval \<Rightarrow> (ref \<times> call list) st) \<Rightarrow> (string \<times> tp) list \<Rightarrow> (string \<times> pyval) list \<Rightarrow> ((string \<times> ref) list \<times> call list) st" where
  "wrap_inputs construct input_tps [] = returnM ([], [])"
| "wrap_inputs construct input_tps ((k, v) # rest) =
     bindM (lookup input_tps k) (\<lambda>t.
     bindM (construct t v) (\<lambda>(r, struct_calls).
     bindM (wrap_inputs construct input_tps rest) (\<lambda>(wrapped_inputs, input_calls).
     returnM ((k, r) # wrapped_inputs, struct_calls @ input_calls))))"

fun get_cids_after :: "(tp \<Rightarrow> pyval \<Rightarrow> (ref \<times> call list) st) \<Rightarrow> (string \<times> tp) list \<Rightarrow> (string \<times> pyval) list \<Rightarrow> (string \<times> string) list st" where
  "get_cids_after construct input_tps [] = returnM []"
| "get_cids_after construct input_tps ((k, v) # rest) =
     bindM (lookup input_tps k) (\<lambda>t.
     bindM (construct t v) (\<lambda>(r, struct_calls).
     bindM (get_cids_after construct input_tps rest) (\<lambda>cids_after.
     returnM ((k, cid r) # cids_after))))"

definition wrap_output :: "(tp \<Rightarrow> pyval \<Rightarrow> (ref \<times> call list) st) \<Rightarrow> (ref \<Rightarrow> tp \<Rightarrow> (ref \<times> call list) st) \<Rightarrow> env \<Rightarrow> (string \<times> tp) list \<Rightarrow> (string \<times> string) list \<Rightarrow> string \<Rightarrow> pyval \<Rightarrow> (ref \<times> call list) st" where
  "wrap_output construct destruct env output_tps output_history_ids k v =
     (case v of
        PyRef r \<Rightarrow> bindM (lookup output_history_ids k) (\<lambda>h. returnM (with_hid r h, []))
      | _ \<Rightarrow>
        bindM (lookup output_tps k) (\<lambda>t.
        if t = AtomType then
          bindM (lookup output_history_ids k) (\<lambda>h. returnM (wrap_atom env v (Some h), []))
        else
          bindM (construct t v) (\<lambda>(start, struct_calls).
          bindM (lookup output_history_ids k) (\<lambda>h.
          destruct (with_hid start h) t))))"

fun wrap_outputs :: "(tp \<Rightarrow> pyval \<Rightarrow> (ref \<times> call list) st) \<Rightarrow> (ref \<Rightarrow> tp \<Rightarrow> (ref \<times> call list) st) \<Rightarrow> env \<Rightarrow> (string \<times> tp) list \<Rightarrow> (string \<times> string) list \<Rightarrow> (string \<times> pyval) list \<Rightarrow> ((string \<times> ref) list \<times> call list) st" where
  "wrap_outputs construct destruct env output_tps output_history_ids [] = returnM ([], [])"
| "wrap_outputs construct destruct env output_tps output_history_ids ((k, v) # rest) =
     bindM (wrap_output construct destruct env output_tps output_history_ids k v) (\<lambda>(r, output_calls_for_output).
     bindM (wrap_outputs construct destruct env output_tps output_history_ids rest) (\<lambda>(wrapped_outputs, output_calls).
     returnM ((k, r) # wrapped_outputs, output_calls_for_output @ output_calls)))"

text \<open>
  \<open>call_internal\<close>, in the three parts its comments name.  Calling the function: a
  structural op is applied to the wrapped inputs; a user op is applied to the unwrapped
  values, after which the content id of every input is computed again, by \<open>construct\<close>,
  and compared with the one taken before.
\<close>

definition run_function :: "(tp \<Rightarrow> pyval \<Rightarrow> (ref \<times> call list) st) \<Rightarrow> nat \<Rightarrow> env \<Rightarrow> op \<Rightarrow> (string \<times> tp) list \<Rightarrow> (string \<times> ref) list \<Rightarrow> string \<Rightarrow> pyval st" where
  "run_function construct n env p input_tps wrapped_inputs call_history_id =
     (case op_f p of
        None \<Rightarrow> raiseM TypeError
      | Some f \<Rightarrow>
          if op_structural p then
            bindM (invoke p call_history_id (f (map (\<lambda>(k, v). (k, PyRef v)) wrapped_inputs)))
              (\<lambda>(returns, mutated). returnM returns)
          else
            let cids_before = map (\<lambda>(k, v). (k, cid v)) wrapped_inputs in
            bindM (unwrap_inputs n env wrapped_inputs) (\<lambda>raw_values.
            bindM (invoke p call_history_id (f raw_values)) (\<lambda>(returns, mutated).
            let raw_values' = map (\<lambda>(k, v). (k, case map_of mutated k of None \<Rightarrow> v | Some v' \<Rightarrow> v')) raw_values in
            bindM (get_cids_after construct input_tps raw_values') (\<lambda>cids_after.
            let changed_inputs = filter (\<lambda>k. map_of cids_before k \<noteq> map_of cids_after k) (map fst cids_before) in
            if changed_inputs \<noteq> [] then raiseM (ValueError (op_name p) changed_inputs)
            else returnM returns))))"

text \<open>Wrapping the outputs and building the call.\<close>

definition wrap_returns :: "(tp \<Rightarrow> pyval \<Rightarrow> (ref \<times> call list) st) \<Rightarrow> (ref \<Rightarrow> tp \<Rightarrow> (ref \<times> call list) st) \<Rightarrow> env \<Rightarrow> op \<Rightarrow> (string \<times> ref) list \<Rightarrow> call list \<Rightarrow> pyval \<Rightarrow> ((string \<times> ref) list \<times> call \<times> call list) st" where
  "wrap_returns construct destruct env p wrapped_inputs input_calls returns =
     bindM (liftE (op_parse_returns p returns)) (\<lambda>(outputs_dict, output_tps).
     let call_content_id = get_call_content_id env p wrapped_inputs;
         call_history_id = get_call_history_id env p wrapped_inputs;
         output_history_ids = get_output_history_ids env call_history_id (map fst outputs_dict) in
     bindM (wrap_outputs construct destruct env output_tps output_history_ids outputs_dict) (\<lambda>(wrapped_outputs, output_calls).
     let main_call = \<lparr>call_op = p, call_cid = call_content_id, call_hid = call_history_id,
                      call_inputs = wrapped_inputs, call_outputs = wrapped_outputs\<rparr> in
     returnM (call_outputs main_call, main_call, input_calls @ output_calls)))"

text \<open>Wrapping the inputs, the check for the call, and the two parts above on a miss.\<close>

definition call_internal_body :: "(tp \<Rightarrow> pyval \<Rightarrow> (ref \<times> call list) st) \<Rightarrow> (ref \<Rightarrow> tp \<Rightarrow> (ref \<times> call list) st) \<Rightarrow> nat \<Rightarrow> env \<Rightarrow> op \<Rightarrow> (string \<times> pyval) list \<Rightarrow> (string \<times> tp) list \<Rightarrow> ((string \<times> ref) list \<times> call \<times> call list) st" where
  "call_internal_body construct destruct n env p inputs input_tps =
     bindM (wrap_inputs construct input_tps inputs) (\<lambda>(wrapped_inputs, input_calls).
     let call_history_id = get_call_history_id env p wrapped_inputs in
     bindM (getsM (\<lambda>s. exists_call s call_history_id)) (\<lambda>ex.
     if ex then
       bindM (get_call n env call_history_id True) (\<lambda>main_call.
       returnM (call_outputs main_call, main_call, input_calls))
     else
       bindM (run_function construct n env p input_tps wrapped_inputs call_history_id) (\<lambda>returns.
       wrap_returns construct destruct env p wrapped_inputs input_calls returns)))"

definition construct_body :: "(op \<Rightarrow> (string \<times> pyval) list \<Rightarrow> (string \<times> tp) list \<Rightarrow> ((string \<times> ref) list \<times> call \<times> call list) st) \<Rightarrow> env \<Rightarrow> tp \<Rightarrow> pyval \<Rightarrow> (ref \<times> call list) st" where
  "construct_body call_internal env t val =
     (case val of
        PyRef r \<Rightarrow> returnM (r, [])
      | _ \<Rightarrow>
        if t = AtomType then returnM (wrap_atom env val None, [])
        else
          bindM (liftE (get_struct_builder env t)) (\<lambda>struct_builder.
          bindM (liftE (get_struct_inputs t val)) (\<lambda>struct_inputs.
          bindM (liftE (get_struct_tps t struct_inputs)) (\<lambda>struct_tps.
          bindM (call_internal struct_builder struct_inputs struct_tps) (\<lambda>(res, main_call, calls).
          case call_outputs main_call of
            [] \<Rightarrow> raiseM IndexError
          | (k, output_ref) # _ \<Rightarrow> returnM (output_ref, calls @ [main_call]))))))"

fun destruct_elts :: "(op \<Rightarrow> (string \<times> pyval) list \<Rightarrow> (string \<times> tp) list \<Rightarrow> ((string \<times> ref) list \<times> call \<times> call list) st) \<Rightarrow> (ref \<Rightarrow> tp \<Rightarrow> (ref \<times> call list) st) \<Rightarrow> ref \<Rightarrow> tp \<Rightarrow> nat \<Rightarrow> ref list \<Rightarrow> (ref list \<times> call list) st" where
  "destruct_elts call_internal destruct r t i [] = returnM ([], [])"
| "destruct_elts call_internal destruct r t i (e # es) =
     bindM (call_internal get_item_op [(''obj'', PyRef r), (''attr'', PyInt (int i))]
              [(''obj'', elt t), (''attr'', AtomType)]) (\<lambda>(getitem_dict, item_call, calls).
     bindM (lookup getitem_dict ''output_0'') (\<lambda>new_elt.
     bindM (destruct new_elt (elt t)) (\<lambda>(new_elt', elt_subcalls).
     bindM (destruct_elts call_internal destruct r t (Suc i) es) (\<lambda>(new_elts, destr_calls).
     returnM (new_elt' # new_elts, item_call # elt_subcalls @ destr_calls)))))"

definition destruct_body :: "(op \<Rightarrow> (string \<times> pyval) list \<Rightarrow> (string \<times> tp) list \<Rightarrow> ((string \<times> ref) list \<times> call \<times> call list) st) \<Rightarrow> (ref \<Rightarrow> tp \<Rightarrow> (ref \<times> call list) st) \<Rightarrow> ref \<Rightarrow> tp \<Rightarrow> (ref \<times> call list) st" where
  "destruct_body call_internal destruct r t =
     (case r of
        AtomRef c h m v \<Rightarrow> returnM (r, [])
      | ListRef c h m es \<Rightarrow>
          (case t of
             ListType et \<Rightarrow>
               bindM (destruct_elts call_internal destruct r t 0 es) (\<lambda>(new_elts, destr_calls).
               returnM (ListRef c h True new_elts, destr_calls))
           | _ \<Rightarrow> raiseM AssertionError))"

fun call_internal :: "nat \<Rightarrow> env \<Rightarrow> op \<Rightarrow> (string \<times> pyval) list \<Rightarrow> (string \<times> tp) list \<Rightarrow> ((string \<times> ref) list \<times> call \<times> call list) st"
  and construct :: "nat \<Rightarrow> env \<Rightarrow> tp \<Rightarrow> pyval \<Rightarrow> (ref \<times> call list) st"
  and destruct :: "nat \<Rightarrow> env \<Rightarrow> ref \<Rightarrow> tp \<Rightarrow> (ref \<times> call list) st"
where
  "call_internal 0 env p inputs input_tps = raiseM RecursionError"
| "call_internal (Suc n) env p inputs input_tps =
     call_internal_body (\<lambda>t v. construct n env t v) (\<lambda>r t. destruct n env r t) n env p inputs input_tps"
| "construct 0 env t val = raiseM RecursionError"
| "construct (Suc n) env t val =
     construct_body (\<lambda>p i ts. call_internal n env p i ts) env t val"
| "destruct 0 env r t = raiseM RecursionError"
| "destruct (Suc n) env r t =
     destruct_body (\<lambda>p i ts. call_internal n env p i ts) (\<lambda>r t. destruct n env r t) r t"


section \<open>What the storage holds\<close>

text \<open>
  The rows of a storage: for each of the four tables what a reader sees, the durable rows
  and the keys marked dirty, and the current context.  Two storages with the same rows
  differ at most in which durable rows are also cached and in the record of invocations.
\<close>

definition rows :: "storage \<Rightarrow>
    ((string \<rightharpoonup> call_data) \<times> (string \<rightharpoonup> call_data) \<times> string set) \<times>
    ((string \<rightharpoonup> string) \<times> (string \<rightharpoonup> string) \<times> string set) \<times>
    ((string \<rightharpoonup> ref) \<times> (string \<rightharpoonup> ref) \<times> string set) \<times>
    ((string \<rightharpoonup> op) \<times> (string \<rightharpoonup> op) \<times> string set) \<times> bool" where
  "rows s =
     ((view (calls s), persistent (calls s), dirty (calls s)),
      (view (atoms s), persistent (atoms s), dirty (atoms s)),
      (view (shapes s), persistent (shapes s), dirty (shapes s)),
      (view (ops s), persistent (ops s), dirty (ops s)),
      current_context s)"

text \<open>
  A computation respects the rows when it leaves them as they are, when its result depends
  on them only, and when from two storages with the same rows it makes the same
  invocations.  A computation is quiet when it invokes no function.
\<close>

definition resp :: "'a st \<Rightarrow> bool" where
  "resp m \<longleftrightarrow>
     (\<forall>s. rows (snd (m s)) = rows s) \<and>
     (\<forall>s s'. rows s = rows s' \<longrightarrow>
        fst (m s) = fst (m s') \<and>
        (\<exists>tr. invocations (snd (m s)) = invocations s @ tr \<and>
              invocations (snd (m s')) = invocations s' @ tr))"

definition quiet :: "'a st \<Rightarrow> bool" where
  "quiet m \<longleftrightarrow> (\<forall>s. invocations (snd (m s)) = invocations s)"

text \<open>
  Every shape a reader of the table \<open>shapes\<close> can see is detached.  This holds of the
  empty storage and is kept by every method that writes the table, which \<open>save_ref\<close>
  alone does, with \<open>ref.detached()\<close> and \<open>ref.shape()\<close>.
\<close>

definition shapes_detached :: "storage \<Rightarrow> bool" where
  "shapes_detached s \<longleftrightarrow> (\<forall>h r. view (shapes s) h = Some r \<longrightarrow> is_detached r)"

text \<open>The equations of the engine are unfolded by hand.\<close>

declare call_internal.simps [simp del] construct.simps [simp del] destruct.simps [simp del]

named_theorems resp_intros
named_theorems quiet_intros

section \<open>Fixtures\<close>

text \<open>
  Concrete collaborators and values on which the theorems below are exercised: ids are
  built by concatenation, an integer is serialised in unary.
\<close>

definition env0 :: env where
  "env0 =
     \<lparr>serialize = (\<lambda>v. case v of PyInt i \<Rightarrow> replicate (nat i) CHR ''i'' | _ \<Rightarrow> []),
      deserialize = (\<lambda>b. PyInt (int (length b))),
      content_hash = (\<lambda>v. CHR ''c'' # (case v of PyInt i \<Rightarrow> replicate (nat i) CHR ''i'' | _ \<Rightarrow> [])),
      default_hid = (\<lambda>v. CHR ''d'' # (case v of PyInt i \<Rightarrow> replicate (nat i) CHR ''i'' | _ \<Rightarrow> [])),
      history_hash = (\<lambda>name version hids. name @ concat (map snd hids)),
      call_content_hash = (\<lambda>name version cids. name @ concat (map snd cids)),
      output_hash = (\<lambda>h k. h @ k),
      list_cid = concat,
      list_hid = concat,
      get_dependents = (\<lambda>t ref_hids call_hids. ({}, {})),
      get_creator_hids = (\<lambda>t ref_hids. []),
      get_consumer_hids = (\<lambda>t ref_hids. [])\<rparr>"

definition atom1 :: ref where
  "atom1 = AtomRef ''ci'' ''h1'' True (PyInt 1)"

definition listref1 :: ref where
  "listref1 = ListRef ''cl'' ''hl'' True [atom1]"

definition stored1 :: storage where
  "stored1 = commit (save_ref env0 atom1 empty_storage)"

definition inc_op :: op where
  "inc_op =
     \<lparr>op_name = ''inc'', op_version = 0,
      op_f = Some (\<lambda>kwargs. case map_of kwargs ''x'' of
                               Some (PyInt i) \<Rightarrow> Inr (PyInt (i + 1), [])
                             | _ \<Rightarrow> Inl TypeError),
      op_structural = False,
      op_parse_returns = (\<lambda>returns. Inr ([(''output_0'', returns)], [(''output_0'', AtomType)]))\<rparr>"

definition out1 :: ref where
  "out1 = AtomRef ''cii'' ''inch1output_0'' True (PyInt 2)"

definition call1 :: call where
  "call1 = \<lparr>call_op = inc_op, call_cid = ''incci'', call_hid = ''inch1'',
             call_inputs = [(''x'', atom1)], call_outputs = [(''output_0'', out1)]\<rparr>"

definition stored2 :: storage where
  "stored2 = save_call env0 call1 empty_storage"

definition bump_op :: op where
  "bump_op =
     \<lparr>op_name = ''bump'', op_version = 0,
      op_f = Some (\<lambda>kwargs. case map_of kwargs ''x'' of
                               Some (PyInt i) \<Rightarrow> Inr (PyNone, [(''x'', PyInt (i + 1))])
                             | _ \<Rightarrow> Inl TypeError),
      op_structural = False,
      op_parse_returns = (\<lambda>returns. Inr ([(''output_0'', returns)], [(''output_0'', AtomType)]))\<rparr>"

definition atom2 :: ref where
  "atom2 = AtomRef ''ci'' ''h2'' True (PyInt 1)"

definition out2 :: ref where
  "out2 = AtomRef ''cii'' ''inch2output_0'' True (PyInt 2)"

definition box_op :: op where
  "box_op =
     \<lparr>op_name = ''box'', op_version = 0,
      op_f = Some (\<lambda>kwargs. case map_of kwargs ''x'' of
                               Some (PyInt i) \<Rightarrow> Inr (PyList [PyInt i], [])
                             | _ \<Rightarrow> Inl TypeError),
      op_structural = False,
      op_parse_returns = (\<lambda>returns. Inr ([(''output_0'', returns)], [(''output_0'', ListType AtomType)]))\<rparr>"

definition box_out1 :: ref where
  "box_out1 = ListRef ''ci'' ''boxh1output_0'' True
     [AtomRef ''ci'' ''__get_item__boxh1output_0doutput_0'' True (PyInt 1)]"

definition box_call1 :: call where
  "box_call1 = \<lparr>call_op = box_op, call_cid = ''boxci'', call_hid = ''boxh1'',
                 call_inputs = [(''x'', atom1)], call_outputs = [(''output_0'', box_out1)]\<rparr>"

definition stored3 :: storage where
  "stored3 = save_call env0 box_call1 empty_storage"

section \<open>Saving a ref\<close>

lemma ref_induct [case_names AtomRef ListRef]:
  assumes "\<And>c h m v. P (AtomRef c h m v)"
    and "\<And>c h m es. (\<And>x. x \<in> set es \<Longrightarrow> P x) \<Longrightarrow> P (ListRef c h m es)"
  shows "P r"
  by (induction r rule: detached.induct) (blast intro: assms)+

lemma fold_invariant:
  "(\<And>x s. x \<in> set xs \<Longrightarrow> P s \<Longrightarrow> P (f x s)) \<Longrightarrow> P s \<Longrightarrow> P (fold f xs s)"
  by (induction xs arbitrary: s) auto

lemma save_ref_keeps: "dict_exists (shapes s) k \<Longrightarrow> dict_exists (shapes (save_ref env r s)) k"
proof (induction r arbitrary: s rule: ref_induct)
  case (AtomRef c h m v)
  then show ?case by (simp add: dict_exists_def dict_set_def)
next
  case (ListRef c h m es)
  show ?case
  proof (cases "dict_exists (shapes s) h")
    case True
    with ListRef.prems show ?thesis by simp
  next
    case False
    have "dict_exists (shapes (s\<lparr>shapes := dict_set (shapes s) h (shape (ListRef c h m es))\<rparr>)) k"
      using ListRef.prems by (simp add: dict_exists_def dict_set_def)
    then have "dict_exists (shapes (fold (save_ref env) es
        (s\<lparr>shapes := dict_set (shapes s) h (shape (ListRef c h m es))\<rparr>))) k"
      by (rule fold_invariant [rotated]) (rule ListRef.IH)
    with False show ?thesis by simp
  qed
qed

lemma save_ref_exists: "dict_exists (shapes (save_ref env r s)) (hid r)"
proof (cases r)
  case (AtomRef c h m v)
  then show ?thesis by (simp add: dict_exists_def dict_set_def)
next
  case (ListRef c h m es)
  have "dict_exists (shapes (fold (save_ref env) es
        (s\<lparr>shapes := dict_set (shapes s) h (shape (ListRef c h m es))\<rparr>))) h"
    by (rule fold_invariant [rotated])
      (simp_all add: save_ref_keeps, simp add: dict_exists_def dict_set_def)
  with ListRef show ?thesis by simp
qed

lemma save_ref_noop: "dict_exists (shapes s) (hid r) \<Longrightarrow> save_ref env r s = s"
  by (cases r) simp_all

text \<open>
  Claim C5.  \<open>save_ref\<close> is idempotent: when the hid of the ref is already present in
  \<open>shapes\<close> it leaves the storage as it is, and saving a ref a second time leaves the
  storage, so in particular the tables \<open>atoms\<close> and \<open>shapes\<close>, as the first save left it.
\<close>

theorem save_ref_idempotent:
  "(dict_exists (shapes s) (hid r) \<longrightarrow> save_ref env r s = s) \<and>
   save_ref env r (save_ref env r s) = save_ref env r s"
  by (simp add: save_ref_noop save_ref_exists)

theorem save_ref_idempotent_witness:
  "dict_exists (shapes (save_ref env0 atom1 empty_storage)) (hid atom1) \<and>
   save_ref env0 atom1 (save_ref env0 atom1 empty_storage) = save_ref env0 atom1 empty_storage"
  using save_ref_idempotent [of "save_ref env0 atom1 empty_storage" atom1 env0]
  by (simp add: atom1_def empty_storage_def empty_dict_def dict_exists_def dict_set_def)

section \<open>Dropping calls\<close>

text \<open>
  Claim C10.  \<open>drop_calls\<close> changes the call cache and the durable table of calls only:
  whatever the set of hids and whether or not dependents are deleted, the tables
  \<open>shapes\<close>, \<open>atoms\<close> and \<open>ops\<close> are afterwards what they were, and so is the set of dirty
  calls; the refs of the dropped calls stay until \<open>cleanup_refs\<close> removes them.
\<close>

theorem drop_calls_frame:
  "shapes (drop_calls env hids delete_dependents s) = shapes s \<and>
   atoms (drop_calls env hids delete_dependents s) = atoms s \<and>
   ops (drop_calls env hids delete_dependents s) = ops s \<and>
   dirty (calls (drop_calls env hids delete_dependents s)) = dirty (calls s)"
  by (simp add: drop_calls_def dict_drop_all_def Let_def)

section \<open>Queries inside a context\<close>

text \<open>
  Claim C8.  While a write context is open, each of \<open>get_orphans\<close>,
  \<open>get_unreferenced_cids\<close>, \<open>get_creators\<close> and \<open>get_consumers\<close> fails instead of
  returning a result, with the error the source raises for a query inside a context (a
  \<open>NotImplementedError\<close> with the message ``Method not supported while in a context.'',
  the \<open>ContextStateError\<close> of the specification).
\<close>

theorem queries_fail_in_context:
  assumes "in_context s"
  shows "get_orphans s = Inl ContextStateError \<and>
         get_unreferenced_cids s = Inl ContextStateError \<and>
         fst (get_creators n env ref_hids s) = Inl ContextStateError \<and>
         fst (get_consumers n env ref_hids s) = Inl ContextStateError"
  using assms
  by (simp add: get_orphans_def get_unreferenced_cids_def get_creators_def get_consumers_def
      ContextStateError_def)

theorem queries_fail_in_context_witness:
  "in_context (enter empty_storage) \<and>
   get_orphans (enter empty_storage) = Inl ContextStateError \<and>
   get_unreferenced_cids (enter empty_storage) = Inl ContextStateError \<and>
   fst (get_creators 1 env0 [''h1''] (enter empty_storage)) = Inl ContextStateError \<and>
   fst (get_consumers 1 env0 [''h1''] (enter empty_storage)) = Inl ContextStateError"
proof -
  have ctx: "in_context (enter empty_storage)"
    by (simp add: in_context_def enter_def)
  show ?thesis
    using ctx queries_fail_in_context [OF ctx, of 1 env0 "[''h1'']"] by simp
qed

section \<open>The reachability sweep\<close>

text \<open>The loop that drops a list of keys one by one drops the set of these keys.\<close>

lemma fold_dict_drop: "fold (\<lambda>k t. dict_drop t k) ks t = dict_drop_all t (set ks)"
proof (induction ks arbitrary: t)
  case Nil
  show ?case by (simp add: dict_drop_all_def restrict_map_def)
next
  case (Cons k ks)
  have "dict_drop_all (dict_drop t k) (set ks) = dict_drop_all t (insert k (set ks))"
    by (auto simp: dict_drop_all_def dict_drop_def restrict_map_def fun_eq_iff)
  with Cons show ?case by simp
qed


lemma hids_in_calls_iff:
  "h \<in> hids_in_calls t \<longleftrightarrow>
   (\<exists>d \<in> ran t. h \<in> snd ` set (cd_input_hids d) \<or> h \<in> snd ` set (cd_output_hids d))"
  by (auto simp: hids_in_calls_def)

lemma cids_in_calls_iff:
  "c \<in> cids_in_calls t \<longleftrightarrow>
   (\<exists>d \<in> ran t. c \<in> snd ` set (cd_input_cids d) \<or> c \<in> snd ` set (cd_output_cids d))"
  by (auto simp: cids_in_calls_def)

text \<open>
  Claim C7.  Outside a context \<open>cleanup_refs\<close> succeeds and sweeps in two phases, in this
  order.  First it drops from \<open>shapes\<close> exactly the orphaned hids: the hids of the durable
  table of shapes that are no input and no output hid of a durable call.  Then it drops
  from \<open>atoms\<close> exactly the unreferenced cids: the cids of the durable table of atoms that
  are no content id of an input or output of a durable call and the cid of no shape that
  has survived the first phase.  The calls and the ops are untouched.
\<close>

theorem cleanup_refs_two_phase:
  assumes "\<not> in_context s"
  shows "\<exists>s'. cleanup_refs s = (Inr (), s') \<and>
    persistent (shapes s') = persistent (shapes s) |`
      (- {h \<in> dom (persistent (shapes s)).
            \<forall>d \<in> ran (persistent (calls s)).
              h \<notin> snd ` set (cd_input_hids d) \<and> h \<notin> snd ` set (cd_output_hids d)}) \<and>
    cache (shapes s') = cache (shapes s) |`
      (- {h \<in> dom (persistent (shapes s)).
            \<forall>d \<in> ran (persistent (calls s)).
              h \<notin> snd ` set (cd_input_hids d) \<and> h \<notin> snd ` set (cd_output_hids d)}) \<and>
    persistent (atoms s') = persistent (atoms s) |`
      (- {c \<in> dom (persistent (atoms s)).
            (\<forall>d \<in> ran (persistent (calls s)).
               c \<notin> snd ` set (cd_input_cids d) \<and> c \<notin> snd ` set (cd_output_cids d)) \<and>
            (\<forall>r \<in> ran (persistent (shapes s')). c \<noteq> cid r)}) \<and>
    cache (atoms s') = cache (atoms s) |`
      (- {c \<in> dom (persistent (atoms s)).
            (\<forall>d \<in> ran (persistent (calls s)).
               c \<notin> snd ` set (cd_input_cids d) \<and> c \<notin> snd ` set (cd_output_cids d)) \<and>
            (\<forall>r \<in> ran (persistent (shapes s')). c \<noteq> cid r)}) \<and>
    calls s' = calls s \<and> ops s' = ops s"
proof -
  have o: "dom (persistent (shapes s)) - hids_in_calls (persistent (calls s)) =
      {h \<in> dom (persistent (shapes s)).
            \<forall>d \<in> ran (persistent (calls s)).
              h \<notin> snd ` set (cd_input_hids d) \<and> h \<notin> snd ` set (cd_output_hids d)}"
    by (auto simp: hids_in_calls_iff Ball_def image_iff) force+
  have u: "dom (persistent (atoms s)) - cids_in_calls (persistent (calls s)) - cid ` ran P =
      {c \<in> dom (persistent (atoms s)).
            (\<forall>d \<in> ran (persistent (calls s)).
               c \<notin> snd ` set (cd_input_cids d) \<and> c \<notin> snd ` set (cd_output_cids d)) \<and>
            (\<forall>r \<in> ran P. c \<noteq> cid r)}" for P
    by (auto simp: cids_in_calls_iff Ball_def image_iff) force+
  show ?thesis
    using assms
    by (simp add: cleanup_refs_def get_orphans_def get_unreferenced_cids_def in_context_def
        dict_drop_all_def Let_def o u)
qed

theorem cleanup_refs_two_phase_witness:
  "\<not> in_context stored1 \<and>
   (\<exists>s'. cleanup_refs stored1 = (Inr (), s') \<and>
      persistent (shapes s') = Map.empty \<and> persistent (atoms s') = Map.empty)"
proof -
  have ctx: "\<not> in_context stored1"
    by (simp add: stored1_def in_context_def commit_def atom1_def empty_storage_def empty_dict_def dict_exists_def)
  have sh: "persistent (shapes stored1) = [''h1'' \<mapsto> AtomRef ''ci'' ''h1'' False PyNone]"
    by (simp add: stored1_def commit_def atom1_def empty_storage_def empty_dict_def dict_exists_def dict_set_def dict_commit_def)
  have at: "persistent (atoms stored1) = [''ci'' \<mapsto> ''i'']"
    by (simp add: stored1_def commit_def atom1_def empty_storage_def empty_dict_def dict_exists_def dict_set_def dict_commit_def env0_def)
  have ca: "persistent (calls stored1) = Map.empty"
    by (simp add: stored1_def commit_def atom1_def empty_storage_def empty_dict_def dict_exists_def dict_set_def dict_commit_def env0_def)
  from cleanup_refs_two_phase [OF ctx] obtain s' where
    "cleanup_refs stored1 = (Inr (), s')" 
    "persistent (shapes s') = persistent (shapes stored1) |`
      (- {h \<in> dom (persistent (shapes stored1)).
            \<forall>d \<in> ran (persistent (calls stored1)).
              h \<notin> snd ` set (cd_input_hids d) \<and> h \<notin> snd ` set (cd_output_hids d)})"
    "persistent (atoms s') = persistent (atoms stored1) |`
      (- {c \<in> dom (persistent (atoms stored1)).
            (\<forall>d \<in> ran (persistent (calls stored1)).
               c \<notin> snd ` set (cd_input_cids d) \<and> c \<notin> snd ` set (cd_output_cids d)) \<and>
            (\<forall>r \<in> ran (persistent (shapes s')). c \<noteq> cid r)})"
    by blast
  note r = this
  have e1: "persistent (shapes s') = Map.empty"
    using r(2) by (simp add: sh ca restrict_map_def fun_eq_iff)
  have e2: "persistent (atoms s') = Map.empty"
    using r(3) by (simp add: e1 at ca restrict_map_def fun_eq_iff)
  from r(1) e1 e2 ctx show ?thesis by blast
qed


section \<open>Loading a ref\<close>

lemmas eval_defs = atom1_def listref1_def empty_storage_def empty_dict_def dict_exists_def
  dict_set_def dict_get_def env0_def shape_def shallow_copy_def
  bindM_def returnM_def raiseM_def shapes_get_def atoms_get_def ops_get_def

text \<open>
  Claim C4, at a list ref with one atom in memory, saved into the empty storage.  Loaded
  with \<open>lazy=False\<close>, the list comes back with the detached shape of its child, without
  the payload \<open>1\<close>, although the child loaded under its own hid has it: \<open>load_ref\<close>
  loads the children and then attaches \<open>shape.obj\<close> instead of the loaded list.
\<close>

theorem load_ref_list_children_detached:
  "fst (load_ref (Suc (Suc 0)) env0 (hid listref1) False (save_ref env0 listref1 empty_storage)) =
     Inr (ListRef ''cl'' ''hl'' True [AtomRef ''ci'' ''h1'' False PyNone]) \<and>
   fst (load_ref (Suc 0) env0 ''h1'' False (save_ref env0 listref1 empty_storage)) =
     Inr (AtomRef ''ci'' ''h1'' True (PyInt 1))"
  by (simp add: eval_defs)

section \<open>Computations that respect the rows\<close>

lemma respI:
  assumes "\<And>s. rows (snd (m s)) = rows s"
    and "\<And>s s'. rows s = rows s' \<Longrightarrow> fst (m s) = fst (m s')"
    and "\<And>s s'. rows s = rows s' \<Longrightarrow> \<exists>tr. invocations (snd (m s)) = invocations s @ tr \<and>
              invocations (snd (m s')) = invocations s' @ tr"
  shows "resp m"
  using assms unfolding resp_def by blast

lemma resp_rows: "resp m \<Longrightarrow> rows (snd (m s)) = rows s"
  unfolding resp_def by blast

lemma resp_fst: "resp m \<Longrightarrow> rows s = rows s' \<Longrightarrow> fst (m s) = fst (m s')"
  unfolding resp_def by blast

lemma resp_trace: "resp m \<Longrightarrow> rows s = rows s' \<Longrightarrow>
  \<exists>tr. invocations (snd (m s)) = invocations s @ tr \<and> invocations (snd (m s')) = invocations s' @ tr"
  by (simp add: resp_def)

lemma resp_returnM [resp_intros]: "resp (returnM x)"
  by (simp add: resp_def returnM_def)

lemma resp_raiseM [resp_intros]: "resp (raiseM e)"
  by (simp add: resp_def raiseM_def)

lemma resp_bindM [resp_intros]:
  assumes m: "resp m" and g: "\<And>x. resp (g x)"
  shows "resp (bindM m g)"
proof (rule respI)
  fix s
  show "rows (snd (bindM m g s)) = rows s"
    using resp_rows [OF m, of s] resp_rows [OF g]
    by (auto simp: bindM_def split: prod.splits sum.splits)
next
  fix s s' :: storage
  assume r: "rows s = rows s'"
  obtain a s1 where ms: "m s = (a, s1)" by (cases "m s")
  obtain a' s1' where ms': "m s' = (a', s1')" by (cases "m s'")
  have aa: "a = a'" using resp_fst [OF m r] ms ms' by simp
  have r1: "rows s1 = rows s1'"
    using resp_rows [OF m, of s] resp_rows [OF m, of s'] ms ms' r by simp
  show "fst (bindM m g s) = fst (bindM m g s')"
    using ms ms' aa resp_fst [OF g r1]
    by (auto simp: bindM_def split: sum.splits)
  from resp_trace [OF m r] ms ms' obtain tr where
    tr: "invocations s1 = invocations s @ tr" "invocations s1' = invocations s' @ tr"
    by auto
  show "\<exists>tr. invocations (snd (bindM m g s)) = invocations s @ tr \<and>
              invocations (snd (bindM m g s')) = invocations s' @ tr"
  proof (cases a)
    case (Inl e)
    with ms ms' aa tr show ?thesis by (auto simp: bindM_def)
  next
    case (Inr x)
    from resp_trace [OF g r1, of x] obtain tr2 where
      "invocations (snd (g x s1)) = invocations s1 @ tr2"
      "invocations (snd (g x s1')) = invocations s1' @ tr2" by auto
    with Inr ms ms' aa tr show ?thesis by (auto simp: bindM_def)
  qed
qed

lemma resp_case_prod [resp_intros]: "(\<And>a b. resp (g a b)) \<Longrightarrow> resp (case_prod g x)"
  by (cases x) simp

lemma resp_if [resp_intros]: "(b \<Longrightarrow> resp m) \<Longrightarrow> (\<not> b \<Longrightarrow> resp m') \<Longrightarrow> resp (if b then m else m')"
  by simp

lemma resp_Let [resp_intros]: "resp (g x) \<Longrightarrow> resp (Let x g)"
  by simp

lemma resp_liftE [resp_intros]: "resp (liftE r)"
  by (cases r) (simp_all add: liftE_def resp_returnM resp_raiseM)

lemma resp_lookup [resp_intros]: "resp (lookup d k)"
  by (simp add: lookup_def resp_returnM resp_raiseM split: option.split)

lemma rows_invocations [simp]: "rows (s\<lparr>invocations := tr\<rparr>) = rows s"
  by (simp add: rows_def)

lemma resp_invoke [resp_intros]: "resp (invoke p h res)"
  by (rule respI) (simp_all add: invoke_def)

lemma resp_getsM:
  assumes "\<And>s s'. rows s = rows s' \<Longrightarrow> g s = g s'"
  shows "resp (getsM g)"
proof (rule respI)
  fix s s' :: storage
  assume "rows s = rows s'"
  then have "g s = g s'" by (rule assms)
  then show "fst (getsM g s) = fst (getsM g s')" by (simp add: getsM_def)
qed (simp_all add: getsM_def)

lemma dict_exists_view: "dict_exists t k \<longleftrightarrow> view t k \<noteq> None"
  by (auto simp: dict_exists_def view_def map_add_def split: option.splits)

lemma fst_dict_get: "fst (dict_get t k) = (case view t k of Some v \<Rightarrow> Inr v | None \<Rightarrow> Inl (KeyError k))"
  by (auto simp: dict_get_def view_def map_add_def split: option.splits)

lemma snd_dict_get:
  "view (snd (dict_get t k)) = view t" "persistent (snd (dict_get t k)) = persistent t"
  "dirty (snd (dict_get t k)) = dirty t"
  by (auto simp: dict_get_def view_def map_add_def fun_eq_iff split: option.splits)

lemma rowsD:
  assumes "rows s = rows s'"
  shows "view (calls s) = view (calls s')" "view (atoms s) = view (atoms s')"
    "view (shapes s) = view (shapes s')" "view (ops s) = view (ops s')"
    "current_context s = current_context s'"
  using assms by (simp_all add: rows_def)

lemma resp_exists_call [resp_intros]: "resp (getsM (\<lambda>s. exists_call s h))"
  by (rule resp_getsM) (drule rowsD(1), simp add: exists_call_def dict_exists_view)


lemma shapes_get_simps:
  "fst (shapes_get h s) = (case view (shapes s) h of Some v \<Rightarrow> Inr v | None \<Rightarrow> Inl (KeyError h))"
  "rows (snd (shapes_get h s)) = rows s"
  "invocations (snd (shapes_get h s)) = invocations s"
  by (simp_all add: shapes_get_def case_prod_beta fst_dict_get snd_dict_get rows_def)

lemma atoms_get_simps:
  "fst (atoms_get h s) = (case view (atoms s) h of Some v \<Rightarrow> Inr v | None \<Rightarrow> Inl (KeyError h))"
  "rows (snd (atoms_get h s)) = rows s"
  "invocations (snd (atoms_get h s)) = invocations s"
  by (simp_all add: atoms_get_def case_prod_beta fst_dict_get snd_dict_get rows_def)

lemma ops_get_simps:
  "fst (ops_get h s) = (case view (ops s) h of Some v \<Rightarrow> Inr v | None \<Rightarrow> Inl (KeyError h))"
  "rows (snd (ops_get h s)) = rows s"
  "invocations (snd (ops_get h s)) = invocations s"
  by (simp_all add: ops_get_def case_prod_beta fst_dict_get snd_dict_get rows_def)

lemma get_call_data_simps:
  "fst (get_call_data h s) = (case view (calls s) h of Some v \<Rightarrow> Inr v | None \<Rightarrow> Inl (KeyError h))"
  "snd (get_call_data h s) = s"
  by (auto simp: get_call_data_def view_def map_add_def split: option.splits)

lemma resp_shapes_get [resp_intros]: "resp (shapes_get h)"
  by (rule respI) (simp_all add: shapes_get_simps, drule rowsD(3), simp)

lemma resp_atoms_get [resp_intros]: "resp (atoms_get h)"
  by (rule respI) (simp_all add: atoms_get_simps, drule rowsD(2), simp)

lemma resp_ops_get [resp_intros]: "resp (ops_get h)"
  by (rule respI) (simp_all add: ops_get_simps, drule rowsD(4), simp)

lemma resp_get_call_data [resp_intros]: "resp (get_call_data h)"
  by (rule respI) (simp_all add: get_call_data_simps, drule rowsD(1), simp)

lemma resp_case_ref [resp_intros]:
  "(\<And>c h m v. r = AtomRef c h m v \<Longrightarrow> resp (g1 c h m v)) \<Longrightarrow>
   (\<And>c h m es. r = ListRef c h m es \<Longrightarrow> resp (g2 c h m es)) \<Longrightarrow> resp (case_ref g1 g2 r)"
  by (cases r) simp_all

lemma resp_case_option [resp_intros]:
  "(x = None \<Longrightarrow> resp m) \<Longrightarrow> (\<And>y. x = Some y \<Longrightarrow> resp (g y)) \<Longrightarrow> resp (case_option m g x)"
  by (cases x) simp_all

lemma resp_case_list [resp_intros]:
  "(xs = [] \<Longrightarrow> resp m) \<Longrightarrow> (\<And>y ys. xs = y # ys \<Longrightarrow> resp (g y ys)) \<Longrightarrow> resp (case_list m g xs)"
  by (cases xs) simp_all

lemma resp_case_pyval [resp_intros]:
  "(v = PyNone \<Longrightarrow> resp m1) \<Longrightarrow> (\<And>i. v = PyInt i \<Longrightarrow> resp (m2 i)) \<Longrightarrow>
   (\<And>vs. v = PyList vs \<Longrightarrow> resp (m3 vs)) \<Longrightarrow> (\<And>r. v = PyRef r \<Longrightarrow> resp (m4 r)) \<Longrightarrow>
   resp (case_pyval m1 m2 m3 m4 v)"
  by (cases v) simp_all

lemma resp_case_tp [resp_intros]:
  "(t = AtomType \<Longrightarrow> resp m1) \<Longrightarrow> (\<And>et. t = ListType et \<Longrightarrow> resp (m2 et)) \<Longrightarrow>
   (t = OtherType \<Longrightarrow> resp m3) \<Longrightarrow> resp (case_tp m1 m2 m3 t)"
  by (cases t) simp_all

lemma resp_load_ref: "resp (load_ref n env h lazy)" and resp_load_elts: "resp (load_elts n env es lazy)"
proof (induction n env h lazy and n env es lazy rule: load_ref_load_elts.induct)
  case (1 env h lazy)
  show ?case by (simp add: resp_raiseM)
next
  case (2 n env h lazy)
  show ?case
    unfolding load_ref.simps
    by (intro resp_intros 2)
next
  case (3 n env lazy)
  show ?case by (simp add: resp_returnM)
next
  case (4 n env e es lazy)
  show ?case
    unfolding load_elts.simps
    by (intro resp_intros 4)
qed

lemma resp_load_refs [resp_intros]: "resp (load_refs n env hs lazy)"
proof (induction hs)
  case Nil
  show ?case by (simp add: resp_returnM)
next
  case (Cons x hs)
  obtain k h where x: "x = (k, h)" by (cases x)
  show ?case
    unfolding x load_refs.simps
    by (intro resp_intros resp_load_ref Cons)
qed

lemma resp_get_call [resp_intros]: "resp (get_call n env h lazy)"
  unfolding get_call_def by (intro resp_intros)

lemma resp_unwrap_atom: "resp (unwrap_atom n env r)"
  unfolding unwrap_atom_def by (intro resp_intros resp_load_ref)

lemma resp_unwrap: "resp (unwrap n env r)" and resp_unwrap_elts: "resp (unwrap_elts n env es)"
proof (induction n env r and n env es rule: unwrap_unwrap_elts.induct)
  case (1 n env c h m v)
  show ?case by (simp add: resp_unwrap_atom)
next
  case (2 n env c h m es)
  show ?case unfolding unwrap.simps by (intro resp_intros 2)
next
  case (3 n env)
  show ?case by (simp add: resp_returnM)
next
  case (4 n env e es)
  show ?case unfolding unwrap_elts.simps by (intro resp_intros 4)
qed

lemma resp_unwrap_inputs [resp_intros]: "resp (unwrap_inputs n env ws)"
proof (induction ws)
  case Nil
  show ?case by (simp add: resp_returnM)
next
  case (Cons x ws)
  obtain k r where x: "x = (k, r)" by (cases x)
  show ?case
    unfolding x unwrap_inputs.simps
    by (intro resp_intros resp_unwrap Cons)
qed

lemma resp_wrap_inputs:
  assumes "\<And>t v. resp (C t v)"
  shows "resp (wrap_inputs C input_tps inputs)"
proof (induction inputs)
  case Nil
  show ?case by (simp add: resp_returnM)
next
  case (Cons x inputs)
  obtain k v where x: "x = (k, v)" by (cases x)
  show ?case
    unfolding x wrap_inputs.simps
    by (intro resp_intros assms Cons)
qed

lemma resp_get_cids_after:
  assumes "\<And>t v. resp (C t v)"
  shows "resp (get_cids_after C input_tps raws)"
proof (induction raws)
  case Nil
  show ?case by (simp add: resp_returnM)
next
  case (Cons x raws)
  obtain k v where x: "x = (k, v)" by (cases x)
  show ?case
    unfolding x get_cids_after.simps
    by (intro resp_intros assms Cons)
qed

lemma resp_wrap_output:
  assumes "\<And>t v. resp (C t v)" and "\<And>r t. resp (D r t)"
  shows "resp (wrap_output C D env output_tps output_history_ids k v)"
  unfolding wrap_output_def by (intro resp_intros assms)

lemma resp_wrap_outputs:
  assumes "\<And>t v. resp (C t v)" and "\<And>r t. resp (D r t)"
  shows "resp (wrap_outputs C D env output_tps output_history_ids outs)"
proof (induction outs)
  case Nil
  show ?case by (simp add: resp_returnM)
next
  case (Cons x outs)
  obtain k v where x: "x = (k, v)" by (cases x)
  show ?case
    unfolding x wrap_outputs.simps
    by (intro resp_intros resp_wrap_output assms Cons)
qed

lemma resp_run_function:
  assumes "\<And>t v. resp (C t v)"
  shows "resp (run_function C n env p input_tps wrapped_inputs h)"
  unfolding run_function_def by (intro resp_intros resp_get_cids_after assms)

lemma resp_wrap_returns:
  assumes "\<And>t v. resp (C t v)" and "\<And>r t. resp (D r t)"
  shows "resp (wrap_returns C D env p wrapped_inputs input_calls returns)"
  unfolding wrap_returns_def by (intro resp_intros resp_wrap_outputs assms)

lemma resp_call_internal_body:
  assumes "\<And>t v. resp (C t v)" and "\<And>r t. resp (D r t)"
  shows "resp (call_internal_body C D n env p inputs input_tps)"
  unfolding call_internal_body_def
  by (intro resp_intros resp_wrap_inputs resp_run_function resp_wrap_returns assms)

lemma resp_construct_body:
  assumes "\<And>p i ts. resp (CI p i ts)"
  shows "resp (construct_body CI env t val)"
  unfolding construct_body_def by (intro resp_intros assms)

lemma resp_destruct_elts:
  assumes "\<And>p i ts. resp (CI p i ts)" and "\<And>r t. resp (D r t)"
  shows "resp (destruct_elts CI D r t i es)"
proof (induction es arbitrary: i)
  case Nil
  show ?case by (simp add: resp_returnM)
next
  case (Cons e es)
  show ?case
    unfolding destruct_elts.simps
    by (intro resp_intros assms Cons)
qed

lemma resp_destruct_body:
  assumes "\<And>p i ts. resp (CI p i ts)" and "\<And>r t. resp (D r t)"
  shows "resp (destruct_body CI D r t)"
  unfolding destruct_body_def by (intro resp_intros resp_destruct_elts assms)

lemma resp_engine:
  "(\<forall>p i ts. resp (call_internal n env p i ts)) \<and>
   (\<forall>t v. resp (construct n env t v)) \<and>
   (\<forall>r t. resp (destruct n env r t))"
proof (induction n)
  case 0
  show ?case by (simp add: resp_raiseM call_internal.simps construct.simps destruct.simps)
next
  case (Suc n)
  then show ?case
    by (simp add: resp_call_internal_body resp_construct_body resp_destruct_body
        call_internal.simps construct.simps destruct.simps)
qed

lemma resp_call_internal: "resp (call_internal n env p inputs input_tps)"
  using resp_engine by blast

section \<open>The memoisation hit\<close>

lemma bindM_returnM [simp]: "bindM (returnM x) g = g x"
  by (simp add: bindM_def returnM_def)

lemma bindM_raiseM [simp]: "bindM (raiseM e) g = raiseM e"
  by (simp add: bindM_def raiseM_def fun_eq_iff)

lemma bindM_getsM: "bindM (getsM g) k s = k (g s) s"
  by (simp add: bindM_def getsM_def)

lemma bindM_Inr: "m s = (Inr x, s1) \<Longrightarrow> bindM m g s = g x s1"
  by (simp add: bindM_def)

lemma bindM_Inl: "m s = (Inl e, s1) \<Longrightarrow> bindM m g s = (Inl e, s1)"
  by (simp add: bindM_def)

lemma lookup_Some: "map_of d k = Some v \<Longrightarrow> lookup d k = returnM v"
  by (simp add: lookup_def)

lemma construct_PyRef: "construct (Suc n) env t (PyRef r) = returnM (r, [])"
  by (simp add: construct.simps construct_body_def)

lemma wrap_inputs_refs:
  assumes C: "\<And>t r. C t (PyRef r) = returnM (r, [])"
    and "\<forall>k \<in> fst ` set ws. map_of input_tps k \<noteq> None"
  shows "wrap_inputs C input_tps (map (\<lambda>(k, r). (k, PyRef r)) ws) = returnM (ws, [])"
  using assms(2)
proof (induction ws)
  case Nil
  show ?case by simp
next
  case (Cons x ws)
  obtain k r where x: "x = (k, r)" by (cases x)
  from Cons.prems x obtain t where t: "map_of input_tps k = Some t" by auto
  from Cons have IH: "wrap_inputs C input_tps (map (\<lambda>(k, r). (k, PyRef r)) ws) =
         returnM (ws, [])" by simp
  show ?case
    by (simp add: x lookup_Some [OF t] C IH)
qed

lemma call_internal_hit:
  assumes typed: "\<forall>k \<in> fst ` set ws. map_of input_tps k \<noteq> None"
    and ex: "exists_call s (get_call_history_id env p ws)"
  shows "call_internal (Suc (Suc n)) env p (map (\<lambda>(k, r). (k, PyRef r)) ws) input_tps s =
         bindM (get_call (Suc n) env (get_call_history_id env p ws) True)
           (\<lambda>main_call. returnM (call_outputs main_call, main_call, [])) s"
  using ex
  by (simp add: call_internal.simps call_internal_body_def
      wrap_inputs_refs [OF construct_PyRef typed] bindM_getsM Let_def)

lemma call_internal_miss:
  assumes typed: "\<forall>k \<in> fst ` set ws. map_of input_tps k \<noteq> None"
    and ex: "\<not> exists_call s (get_call_history_id env p ws)"
  shows "call_internal (Suc (Suc n)) env p (map (\<lambda>(k, r). (k, PyRef r)) ws) input_tps s =
         bindM (run_function (construct (Suc n) env) (Suc n) env p input_tps ws
                  (get_call_history_id env p ws))
           (wrap_returns (construct (Suc n) env) (destruct (Suc n) env) env p ws []) s"
  using ex
  by (simp add: call_internal.simps call_internal_body_def
      wrap_inputs_refs [OF construct_PyRef typed] bindM_getsM Let_def)

lemma quiet_returnM [quiet_intros]: "quiet (returnM x)"
  by (simp add: quiet_def returnM_def)

lemma quiet_raiseM [quiet_intros]: "quiet (raiseM e)"
  by (simp add: quiet_def raiseM_def)

lemma quiet_bindM [quiet_intros]: "quiet m \<Longrightarrow> (\<And>x. quiet (g x)) \<Longrightarrow> quiet (bindM m g)"
  unfolding quiet_def bindM_def
  by (auto split: prod.splits sum.splits) (metis snd_conv)+

lemma quiet_case_ref [quiet_intros]:
  "(\<And>c h m v. r = AtomRef c h m v \<Longrightarrow> quiet (g1 c h m v)) \<Longrightarrow>
   (\<And>c h m es. r = ListRef c h m es \<Longrightarrow> quiet (g2 c h m es)) \<Longrightarrow> quiet (case_ref g1 g2 r)"
  by (cases r) simp_all

lemma quiet_if [quiet_intros]: "(b \<Longrightarrow> quiet m) \<Longrightarrow> (\<not> b \<Longrightarrow> quiet m') \<Longrightarrow> quiet (if b then m else m')"
  by simp

lemma quiet_shapes_get [quiet_intros]: "quiet (shapes_get h)"
  by (simp add: quiet_def shapes_get_simps)

lemma quiet_atoms_get [quiet_intros]: "quiet (atoms_get h)"
  by (simp add: quiet_def atoms_get_simps)

lemma quiet_ops_get [quiet_intros]: "quiet (ops_get h)"
  by (simp add: quiet_def ops_get_simps)

lemma quiet_get_call_data [quiet_intros]: "quiet (get_call_data h)"
  by (simp add: quiet_def get_call_data_simps)

lemma quiet_load_ref: "quiet (load_ref n env h lazy)" and quiet_load_elts: "quiet (load_elts n env es lazy)"
proof (induction n env h lazy and n env es lazy rule: load_ref_load_elts.induct)
  case (1 env h lazy)
  show ?case by (simp add: quiet_raiseM)
next
  case (2 n env h lazy)
  show ?case
    unfolding load_ref.simps
    by (intro quiet_intros 2)
next
  case (3 n env lazy)
  show ?case by (simp add: quiet_returnM)
next
  case (4 n env e es lazy)
  show ?case
    unfolding load_elts.simps
    by (intro quiet_intros 4)
qed

lemma quiet_load_refs [quiet_intros]: "quiet (load_refs n env hs lazy)"
proof (induction hs)
  case Nil
  show ?case by (simp add: quiet_returnM)
next
  case (Cons x hs)
  obtain k h where x: "x = (k, h)" by (cases x)
  show ?case
    unfolding x load_refs.simps
    by (intro quiet_intros quiet_load_ref Cons)
qed

lemma quiet_get_call [quiet_intros]: "quiet (get_call n env h lazy)"
  unfolding get_call_def by (intro quiet_intros)

lemmas fixture_defs = inc_op_def out1_def call1_def stored2_def save_call_def call_data_of_def
  op_detached_def exists_call_def get_call_history_id_def get_call_def get_call_data_def
  getsM_def liftE_def lookup_def



section \<open>Lazily loaded outputs\<close>

lemma refs_of_PyRef [simp]: "refs_of (PyList (map PyRef es)) = es"
  by (induction es) simp_all

lemma concat_PyRef [simp]:
  "concat (map ((\<lambda>v. case v of PyRef r \<Rightarrow> [r] | _ \<Rightarrow> []) \<circ> PyRef) es) = es"
  by (induction es) simp_all

lemma is_detached_detached [simp]: "is_detached (detached r)"
  by (induction r rule: ref_induct) (simp_all add: list_all_iff)

lemma is_detached_iff: "is_detached r \<longleftrightarrow> detached r = r"
  by (induction r rule: ref_induct) (auto simp: list_all_iff map_idI intro: map_idI dest: map_eq_conv [THEN iffD1, of _ _ id, simplified])

lemma lazily_loaded_atom: "lazily_loaded (AtomRef c h m v) \<longleftrightarrow> is_detached (AtomRef c h m v)"
  by simp

lemma lazily_loaded_list: "lazily_loaded (ListRef c h m es) \<Longrightarrow> \<not> is_detached (ListRef c h m es)"
  by simp

lemma shapes_detached_rows: "rows s = rows s' \<Longrightarrow> shapes_detached s \<Longrightarrow> shapes_detached s'"
  by (drule rowsD(3)) (simp add: shapes_detached_def)

lemma load_ref_lazy_detached:
  assumes "shapes_detached s" and "load_ref n env h True s = (Inr r, s')"
  shows "lazily_loaded r"
proof (cases n)
  case 0
  with assms show ?thesis by (simp add: raiseM_def)
next
  case (Suc m)
  obtain a s1 where g: "shapes_get h s = (a, s1)" by (cases "shapes_get h s")
  show ?thesis
  proof (cases a)
    case (Inl e)
    with assms Suc g show ?thesis by (simp add: bindM_Inl)
  next
    case (Inr sh)
    from g Inr shapes_get_simps(1) [of h s] have "view (shapes s) h = Some sh"
      by (auto split: option.splits)
    with assms(1) have d: "is_detached sh" by (simp add: shapes_detached_def)
    from assms(2) Suc g Inr have r: "(case sh of
         AtomRef c h' b v \<Rightarrow>
           if True then returnM (shallow_copy sh)
           else bindM (atoms_get c) (\<lambda>bytes. returnM (attached sh (deserialize env bytes)))
       | ListRef c h' b es \<Rightarrow>
           bindM (load_elts m env es True) (\<lambda>obj. returnM (attached sh (obj_of sh)))) s1 = (Inr r, s')"
      by (simp add: bindM_Inr)
    show ?thesis
    proof (cases sh)
      case (AtomRef c h' b v)
      with r d show ?thesis by (auto simp: returnM_def shallow_copy_def)
    next
      case (ListRef c h' b es)
      with r d show ?thesis
        by (auto simp: bindM_def returnM_def split: prod.splits sum.splits)
    qed
  qed
qed

lemma load_refs_lazy_detached:
  assumes "shapes_detached s" and "load_refs n env hs True s = (Inr rs, s')"
  shows "\<forall>(k, r) \<in> set rs. lazily_loaded r"
  using assms
proof (induction hs arbitrary: s rs s')
  case Nil
  then show ?case by (simp add: returnM_def)
next
  case (Cons x hs)
  obtain k h where x: "x = (k, h)" by (cases x)
  obtain a s1 where l: "load_ref n env h True s = (a, s1)" by (cases "load_ref n env h True s")
  show ?case
  proof (cases a)
    case (Inl e)
    with Cons.prems x l show ?thesis by (simp add: bindM_Inl)
  next
    case (Inr r)
    have d: "lazily_loaded r" using Cons.prems(1) l Inr by (auto intro: load_ref_lazy_detached)
    have "rows s1 = rows s" using resp_rows [OF resp_load_ref, of n env h True s] l by simp
    then have inv1: "shapes_detached s1"
      using Cons.prems(1) shapes_detached_rows by metis
    obtain b s2 where l2: "load_refs n env hs True s1 = (b, s2)"
      by (cases "load_refs n env hs True s1")
    show ?thesis
    proof (cases b)
      case (Inl e)
      with Cons.prems x l Inr l2 show ?thesis by (simp add: bindM_Inr bindM_Inl)
    next
      case Inr2: (Inr rs')
      from Cons.prems(2) x l Inr l2 Inr2 have rs: "rs = (k, r) # rs'"
        by (simp add: bindM_Inr returnM_def)
      from Cons.IH [OF inv1] l2 Inr2 have "\<forall>(k, r) \<in> set rs'. lazily_loaded r" by simp
      with rs d show ?thesis by simp
    qed
  qed
qed

lemma get_call_lazy_detached:
  assumes "shapes_detached s" and "get_call n env h True s = (Inr c, s')"
  shows "\<forall>(k, r) \<in> set (call_outputs c). lazily_loaded r"
proof -
  obtain a s1 where g1: "get_call_data h s = (a, s1)" by (cases "get_call_data h s")
  show ?thesis
  proof (cases a)
    case (Inl e)
    with assms g1 show ?thesis by (simp add: get_call_def bindM_Inl)
  next
    case (Inr d)
    have s1: "s1 = s" using g1 get_call_data_simps(2) [of h s] by simp
    obtain b s2 where g2: "ops_get (cd_op_name d) s = (b, s2)" by (cases "ops_get (cd_op_name d) s")
    have r2: "rows s2 = rows s" using ops_get_simps(2) [of "cd_op_name d" s] g2 by simp
    show ?thesis
    proof (cases b)
      case (Inl e)
      with assms g1 Inr s1 g2 show ?thesis by (simp add: get_call_def bindM_Inl bindM_Inr)
    next
      case Inr2: (Inr p)
      obtain i s3 where g3: "load_refs n env (cd_input_hids d) True s2 = (i, s3)"
        by (cases "load_refs n env (cd_input_hids d) True s2")
      have r3: "rows s3 = rows s"
        using resp_rows [OF resp_load_refs, of n env "cd_input_hids d" True s2] g3 r2 by simp
      then have inv3: "shapes_detached s3" using assms(1) shapes_detached_rows by metis
      show ?thesis
      proof (cases i)
        case (Inl e)
        with assms g1 Inr s1 g2 Inr2 g3 show ?thesis by (simp add: get_call_def bindM_Inl bindM_Inr)
      next
        case Inr3: (Inr ins)
        obtain ou s4 where g4: "load_refs n env (cd_output_hids d) True s3 = (ou, s4)"
          by (cases "load_refs n env (cd_output_hids d) True s3")
        show ?thesis
        proof (cases ou)
          case (Inl e)
          with assms g1 Inr s1 g2 Inr2 g3 Inr3 g4 show ?thesis
            by (simp add: get_call_def bindM_Inl bindM_Inr)
        next
          case Inr4: (Inr outs)
          from assms(2) g1 Inr s1 g2 Inr2 g3 Inr3 g4 Inr4 have "call_outputs c = outs"
            by (auto simp: get_call_def bindM_Inr returnM_def)
          with load_refs_lazy_detached [OF inv3] g4 Inr4 show ?thesis by simp
        qed
      qed
    qed
  qed
qed

lemma view_dict_set: "view (dict_set t k v) = (view t)(k \<mapsto> v)"
  by (simp add: view_def dict_set_def)

lemma view_dict_commit: "view (dict_commit t) = view t"
  by (auto simp: view_def dict_commit_def map_add_def restrict_map_def fun_eq_iff split: option.splits)

lemma shapes_detached_empty: "shapes_detached empty_storage"
  by (simp add: shapes_detached_def empty_storage_def empty_dict_def view_def)

lemma shapes_detached_save_ref: "shapes_detached s \<Longrightarrow> shapes_detached (save_ref env r s)"
proof (induction r arbitrary: s rule: ref_induct)
  case (AtomRef c h m v)
  then show ?case by (simp add: shapes_detached_def view_dict_set)
next
  case (ListRef c h m es)
  have "shapes_detached (s\<lparr>shapes := dict_set (shapes s) h (shape (ListRef c h m es))\<rparr>)"
    using ListRef.prems by (simp add: shapes_detached_def view_dict_set shape_def list_all_iff)
  then have "shapes_detached (fold (save_ref env) es
      (s\<lparr>shapes := dict_set (shapes s) h (shape (ListRef c h m es))\<rparr>))"
    by (rule fold_invariant [where P = shapes_detached, rotated]) (rule ListRef.IH)
  with ListRef.prems show ?case by simp
qed

lemma shapes_detached_save_call: "shapes_detached s \<Longrightarrow> shapes_detached (save_call env c s)"
proof -
  assume inv: "shapes_detached s"
  have 1: "shapes_detached (if \<not> dict_exists (ops s) (op_name (call_op c))
                  then s\<lparr>ops := dict_set (ops s) (op_name (call_op c)) (op_detached (call_op c))\<rparr>
                  else s)" (is "shapes_detached ?s1")
    using inv by (simp add: shapes_detached_def)
  have 2: "shapes_detached (fold (save_ref env) (map snd (call_inputs c @ call_outputs c)) ?s1)"
    by (rule fold_invariant [where P = shapes_detached, rotated, OF 1]) (rule shapes_detached_save_ref)
  then have "shapes_detached ((fold (save_ref env) (map snd (call_inputs c @ call_outputs c)) ?s1)
      \<lparr>calls := x\<rparr>)" for x
    by (simp add: shapes_detached_def)
  with inv show ?thesis by (simp add: save_call_def Let_def)
qed

lemma shapes_detached_commit: "shapes_detached s \<Longrightarrow> shapes_detached (commit s)"
  by (simp add: shapes_detached_def commit_def view_dict_commit)

lemma shapes_detached_drop_calls: "shapes_detached s \<Longrightarrow> shapes_detached (drop_calls env hs dd s)"
  by (simp add: shapes_detached_def drop_calls_def Let_def)

lemma shapes_detached_call_internal:
  "shapes_detached s \<Longrightarrow> shapes_detached (snd (call_internal n env p inputs input_tps s))"
  using resp_rows [OF resp_call_internal, of n env p inputs input_tps s] shapes_detached_rows
  by metis

lemmas box_defs = box_op_def box_out1_def box_call1_def stored3_def

lemma box_hit_outputs:
  "map_sum id fst (fst (bindM (get_call (Suc (Suc 0)) env0
      (get_call_history_id env0 box_op [(''x'', atom1)]) True)
      (\<lambda>main_call. returnM (call_outputs main_call, main_call, [])) stored3)) =
   Inr [(''output_0'', ListRef ''ci'' ''boxh1output_0'' True
          [AtomRef ''ci'' ''__get_item__boxh1output_0doutput_0'' False PyNone])]"
  by (simp add: box_defs fixture_defs eval_defs numeral_2_eq_2)




section \<open>The side-effect guard\<close>

lemma returnM_apply: "returnM x s = (Inr x, s)"
  by (simp add: returnM_def)

lemma raiseM_apply: "raiseM e s = (Inl e, s)"
  by (simp add: raiseM_def)

lemma invoke_eq: "invoke p h res s = (res, s\<lparr>invocations := invocations s @ [(op_name p, h)]\<rparr>)"
  by (simp add: invoke_def)

text \<open>
  Claim C3.  Take a user op and a call that is not in the storage: the inputs are
  wrapped, unwrapped to raw values, and the function returns, having mutated some of them
  in place.  When the content id recomputed for some input differs from the one taken
  before the invocation, \<open>call_internal\<close> fails with the side-effect error, which names the
  op and lists the changed inputs, and the rows of the storage are what they were: no
  call, ref, atom or op has been written.
\<close>

theorem side_effect_aborts:
  assumes wrap: "wrap_inputs (construct n env) input_tps inputs s =
                   (Inr (wrapped_inputs, input_calls), s1)"
    and miss: "\<not> exists_call s1 (get_call_history_id env p wrapped_inputs)"
    and user: "op_f p = Some f" "\<not> op_structural p"
    and unw: "unwrap_inputs n env wrapped_inputs s1 = (Inr raw_values, s2)"
    and ret: "f raw_values = Inr (returns, mutated)"
    and after: "get_cids_after (construct n env) input_tps
                  (map (\<lambda>(k, v). (k, case map_of mutated k of None \<Rightarrow> v | Some v' \<Rightarrow> v')) raw_values)
                  (s2\<lparr>invocations := invocations s2 @
                        [(op_name p, get_call_history_id env p wrapped_inputs)]\<rparr>) =
                  (Inr cids_after, s3)"
    and changed: "\<exists>k \<in> fst ` set wrapped_inputs.
                    map_of (map (\<lambda>(k, v). (k, cid v)) wrapped_inputs) k \<noteq> map_of cids_after k"
  shows "call_internal (Suc n) env p inputs input_tps s =
           (Inl (SideEffectError (op_name p)
              (filter (\<lambda>k. map_of (map (\<lambda>(k, v). (k, cid v)) wrapped_inputs) k \<noteq> map_of cids_after k)
                 (map fst wrapped_inputs))), s3) \<and>
         rows s3 = rows s"
proof -
  define before where "before = map (\<lambda>(k, v). (k, cid v)) wrapped_inputs"
  define chg where "chg = (\<lambda>ca. filter (\<lambda>k. map_of before k \<noteq> map_of ca k) (map fst before))"
  define h where "h = get_call_history_id env p wrapped_inputs"
  define raw' where "raw' = (\<lambda>mutated raw_values :: (string \<times> pyval) list.
     map (\<lambda>(k, v). (k, case map_of mutated k of None \<Rightarrow> v | Some v' \<Rightarrow> v')) raw_values)"
  have keys: "map fst before = map fst wrapped_inputs"
    unfolding before_def by (induction wrapped_inputs) auto
  have st: "chg cids_after =
      filter (\<lambda>k. map_of before k \<noteq> map_of cids_after k) (map fst wrapped_inputs)"
    unfolding chg_def keys by simp
  have "set (chg cids_after) \<noteq> {}"
    unfolding st using changed unfolding before_def by auto
  then have ne: "chg cids_after \<noteq> []" by auto
  have rf_unfold: "run_function (construct n env) n env p input_tps wrapped_inputs h =
      bindM (unwrap_inputs n env wrapped_inputs) (\<lambda>raw_values.
      bindM (invoke p h (f raw_values)) (\<lambda>(returns, mutated).
      bindM (get_cids_after (construct n env) input_tps (raw' mutated raw_values)) (\<lambda>cids_after.
      if chg cids_after \<noteq> [] then raiseM (ValueError (op_name p) (chg cids_after))
      else returnM returns)))"
    unfolding run_function_def before_def chg_def raw'_def Let_def by (simp add: user)
  have after': "get_cids_after (construct n env) input_tps (raw' mutated raw_values)
      (s2\<lparr>invocations := invocations s2 @ [(op_name p, h)]\<rparr>) = (Inr cids_after, s3)"
    using after unfolding raw'_def h_def .
  have inv: "invoke p h (f raw_values) s2 =
      (Inr (returns, mutated), s2\<lparr>invocations := invocations s2 @ [(op_name p, h)]\<rparr>)"
    by (simp add: invoke_eq ret)
  have rf: "run_function (construct n env) n env p input_tps wrapped_inputs h s1 =
            (Inl (ValueError (op_name p) (chg cids_after)), s3)"
    unfolding rf_unfold
    by (simp add: bindM_Inr [where m = "unwrap_inputs n env wrapped_inputs", OF unw]
        bindM_Inr [where m = "invoke p h (f raw_values)", OF inv]
        bindM_Inr [where m = "get_cids_after (construct n env) input_tps (raw' mutated raw_values)",
          OF after'] ne raiseM_def)
  have run: "call_internal (Suc n) env p inputs input_tps s =
      (Inl (SideEffectError (op_name p) (chg cids_after)), s3)"
    using miss unfolding h_def [symmetric]
    by (simp add: call_internal.simps call_internal_body_def
        bindM_Inr [where m = "wrap_inputs (construct n env) input_tps inputs", OF wrap] Let_def
        bindM_getsM h_def [symmetric]
        bindM_Inl [where m = "run_function (construct n env) n env p input_tps wrapped_inputs h", OF rf]
        SideEffectError_def)
  have "rows s3 = rows s"
    using resp_rows [OF resp_call_internal, of "Suc n" env p inputs input_tps s] run by simp
  with run show ?thesis unfolding st before_def by blast
qed

theorem side_effect_aborts_witness:
  "call_internal (Suc (Suc 0)) env0 bump_op [(''x'', PyInt 1)] [(''x'', AtomType)] empty_storage =
     (Inl (SideEffectError ''bump'' [''x'']),
      empty_storage\<lparr>invocations := [(''bump'', ''bumpdi'')]\<rparr>) \<and>
   rows (empty_storage\<lparr>invocations := [(''bump'', ''bumpdi'')]\<rparr>) = rows empty_storage"
proof -
  let ?x = "AtomRef ''ci'' ''di'' True (PyInt 1)"
  let ?f = "\<lambda>kwargs. case map_of kwargs ''x'' of
                               Some (PyInt i) \<Rightarrow> Inr (PyNone, [(''x'', PyInt (i + 1))])
                             | _ \<Rightarrow> Inl TypeError"
  have wrap: "wrap_inputs (construct (Suc 0) env0) [(''x'', AtomType)] [(''x'', PyInt 1)] empty_storage =
      (Inr ([(''x'', ?x)], []), empty_storage)"
    by (simp add: construct.simps construct_body_def wrap_atom_def lookup_def env0_def returnM_apply)
  have h: "get_call_history_id env0 bump_op [(''x'', ?x)] = ''bumpdi''"
    by (simp add: get_call_history_id_def bump_op_def env0_def)
  have miss: "\<not> exists_call empty_storage (get_call_history_id env0 bump_op [(''x'', ?x)])"
    by (simp add: exists_call_def dict_exists_def empty_storage_def empty_dict_def)
  have user: "op_f bump_op = Some ?f" "\<not> op_structural bump_op"
    by (simp_all add: bump_op_def)
  have unw: "unwrap_inputs (Suc 0) env0 [(''x'', ?x)] empty_storage = (Inr [(''x'', PyInt 1)], empty_storage)"
    by (simp add: unwrap_atom_def returnM_apply)
  have ret: "?f [(''x'', PyInt 1)] = Inr (PyNone, [(''x'', PyInt 2)])"
    by simp
  have after: "get_cids_after (construct (Suc 0) env0) [(''x'', AtomType)]
      (map (\<lambda>(k, v). (k, case map_of [(''x'', PyInt 2)] k of None \<Rightarrow> v | Some v' \<Rightarrow> v')) [(''x'', PyInt 1)])
      (empty_storage\<lparr>invocations := invocations empty_storage @
          [(op_name bump_op, get_call_history_id env0 bump_op [(''x'', ?x)])]\<rparr>) =
      (Inr [(''x'', ''cii'')], empty_storage\<lparr>invocations := [(''bump'', ''bumpdi'')]\<rparr>)"
    unfolding h
    by (simp add: construct.simps construct_body_def wrap_atom_def lookup_def env0_def returnM_apply
        bump_op_def empty_storage_def numeral_2_eq_2)
  have changed: "\<exists>k \<in> fst ` set [(''x'', ?x)].
      map_of (map (\<lambda>(k, v). (k, cid v)) [(''x'', ?x)]) k \<noteq> map_of [(''x'', ''cii'')] k"
    by simp
  from side_effect_aborts [OF wrap miss user unw ret after changed]
  have "call_internal (Suc (Suc 0)) env0 bump_op [(''x'', PyInt 1)] [(''x'', AtomType)] empty_storage =
     (Inl (SideEffectError (op_name bump_op) [''x'']),
      empty_storage\<lparr>invocations := [(''bump'', ''bumpdi'')]\<rparr>)"
    by simp
  then show ?thesis by (simp add: bump_op_def)
qed

section \<open>Invoking twice\<close>

lemma bindM_Pair [simp]: "bindM (Pair (Inr x)) g = g x"
  by (simp add: bindM_def)

lemma inc_hid: "get_call_history_id env0 inc_op [(''x'', atom1)] = ''inch1''"
  by (simp add: get_call_history_id_def inc_op_def env0_def atom1_def)

lemma inc_run_function:
  "run_function (construct (Suc 0) env0) (Suc 0) env0 inc_op [(''x'', AtomType)] [(''x'', atom1)]
     ''inch1'' s =
   (Inr (PyInt 2), s\<lparr>invocations := invocations s @ [(''inc'', ''inch1'')]\<rparr>)"
proof -
  have f: "op_f inc_op = Some (\<lambda>kwargs. case map_of kwargs ''x'' of
                               Some (PyInt i) \<Rightarrow> Inr (PyInt (i + 1), [])
                             | _ \<Rightarrow> Inl TypeError)" "\<not> op_structural inc_op"
      "op_name inc_op = ''inc''"
    by (simp_all add: inc_op_def)
  have c: "construct (Suc 0) env0 AtomType (PyInt 1) = returnM (AtomRef ''ci'' ''di'' True (PyInt 1), [])"
    by (simp add: construct.simps construct_body_def wrap_atom_def env0_def)
  show ?thesis
    by (simp add: run_function_def f Let_def atom1_def unwrap_atom_def
        bindM_def [of "invoke p h r" for p h r] invoke_eq lookup_def c returnM_apply)
qed

lemma inc_wrap_returns:
  "wrap_returns (construct (Suc 0) env0) (destruct (Suc 0) env0) env0 inc_op [(''x'', atom1)] []
     (PyInt 2) s = (Inr ([(''output_0'', out1)], call1, []), s)"
proof -
  have p: "op_parse_returns inc_op (PyInt 2) = Inr ([(''output_0'', PyInt 2)], [(''output_0'', AtomType)])"
    by (simp add: inc_op_def)
  have c: "get_call_content_id env0 inc_op [(''x'', atom1)] = ''incci''"
    by (simp add: get_call_content_id_def inc_op_def env0_def atom1_def)
  have w: "wrap_atom env0 (PyInt 2) (Some ''inch1output_0'') = out1"
    by (simp add: wrap_atom_def env0_def out1_def numeral_2_eq_2)
  have o: "output_hash env0 ''inch1'' ''output_0'' = ''inch1output_0''"
    by (simp add: env0_def)
  show ?thesis
    by (simp add: wrap_returns_def p liftE_def Let_def inc_hid c get_output_history_ids_def o
        wrap_output_def lookup_def w returnM_apply call1_def)
qed

lemma inc_first_call:
  assumes "\<not> exists_call s ''inch1''"
  shows "call_internal (Suc (Suc 0)) env0 inc_op [(''x'', PyRef atom1)] [(''x'', AtomType)] s =
     (Inr ([(''output_0'', out1)], call1, []),
      s\<lparr>invocations := invocations s @ [(''inc'', ''inch1'')]\<rparr>)"
proof -
  have typed: "\<forall>k \<in> fst ` set [(''x'', atom1)]. map_of [(''x'', AtomType)] k \<noteq> None"
    by simp
  have miss: "\<not> exists_call s (get_call_history_id env0 inc_op [(''x'', atom1)])"
    using assms by (simp add: inc_hid)
  show ?thesis
    using call_internal_miss [OF typed miss, of 0]
    by (simp add: inc_hid bindM_Inr [where m = "run_function (construct (Suc 0) env0) (Suc 0) env0
          inc_op [(''x'', AtomType)] [(''x'', atom1)] ''inch1''", OF inc_run_function]
        inc_wrap_returns)
qed

lemma save_ref_invocations: "invocations (save_ref env r s) = invocations s"
proof (induction r arbitrary: s rule: ref_induct)
  case (AtomRef c h m v)
  show ?case by simp
next
  case (ListRef c h m es)
  have "invocations (fold (save_ref env) es t) = invocations t" for t
    by (rule fold_invariant [where P = "\<lambda>u. invocations u = invocations t"])
      (simp_all add: ListRef.IH)
  then show ?case by simp
qed

lemma fold_save_ref_invocations: "invocations (fold (save_ref env) rs s) = invocations s"
  by (rule fold_invariant [where P = "\<lambda>u. invocations u = invocations s"])
    (simp_all add: save_ref_invocations)

lemma save_call_invocations: "invocations (save_call env c s) = invocations s"
  by (simp add: save_call_def Let_def fold_save_ref_invocations)

lemma fold_save_ref_calls: "calls (fold (save_ref env) rs s) = calls s"
proof -
  have one: "calls (save_ref env r t) = calls t" for r t
  proof (induction r arbitrary: t rule: ref_induct)
    case (AtomRef c h m v)
    show ?case by simp
  next
    case (ListRef c h m es)
    have "calls (fold (save_ref env) es u) = calls u" for u
      by (rule fold_invariant [where P = "\<lambda>w. calls w = calls u"]) (simp_all add: ListRef.IH)
    then show ?case by simp
  qed
  show ?thesis
    by (rule fold_invariant [where P = "\<lambda>u. calls u = calls s"]) (simp_all add: one)
qed

lemma save_call_exists: "exists_call (save_call env c s) (call_hid c)"
  by (simp add: save_call_def Let_def exists_call_def dict_exists_def dict_set_def
      fold_save_ref_calls)

lemma save_call_keeps: "exists_call s h \<Longrightarrow> exists_call (save_call env c s) h"
  by (simp add: save_call_def Let_def exists_call_def dict_exists_def dict_set_def
      fold_save_ref_calls)

lemma wrap_returns_call:
  assumes "wrap_returns C D env p ws ic returns s = (Inr (outs, c, aux), s')"
  shows "call_hid c = get_call_history_id env p ws" and "call_inputs c = ws"
    and "call_outputs c = outs" and "call_op c = p"
  using assms
  by (auto simp: wrap_returns_def bindM_def liftE_def returnM_def raiseM_def Let_def
      split: sum.splits prod.splits)

lemma exists_call_rows: "rows s = rows s' \<Longrightarrow> exists_call s h = exists_call s' h"
  by (drule rowsD(1)) (simp add: exists_call_def dict_exists_view)

lemma memo_after_save:
  assumes typed: "\<forall>k \<in> fst ` set ws. map_of input_tps k \<noteq> None"
    and run: "call_internal (Suc (Suc n)) env p (map (\<lambda>(k, r). (k, PyRef r)) ws) input_tps s =
                (Inr (outs, c, aux), s1)"
  shows "exists_call (save_call env c s1) (get_call_history_id env p ws)"
    and "invocations (snd (call_internal (Suc (Suc n)) env p (map (\<lambda>(k, r). (k, PyRef r)) ws)
            input_tps (save_call env c s1))) = invocations s1"
proof -
  let ?h = "get_call_history_id env p ws"
  have rows1: "rows s1 = rows s"
    using resp_rows [OF resp_call_internal, of "Suc (Suc n)" env p
        "map (\<lambda>(k, r). (k, PyRef r)) ws" input_tps s] run by simp
  show ex: "exists_call (save_call env c s1) ?h"
  proof (cases "exists_call s ?h")
    case True
    then have "exists_call s1 ?h" using exists_call_rows [OF rows1] by simp
    then show ?thesis by (rule save_call_keeps)
  next
    case False
    let ?rf = "run_function (construct (Suc n) env) (Suc n) env p input_tps ws ?h"
    from run have b: "bindM ?rf
        (wrap_returns (construct (Suc n) env) (destruct (Suc n) env) env p ws []) s =
        (Inr (outs, c, aux), s1)"
      by (simp add: call_internal_miss [OF typed False])
    obtain a t where rf: "?rf s = (a, t)" by (cases "?rf s")
    have "call_hid c = ?h"
    proof (cases a)
      case (Inl e)
      with b rf show ?thesis by (simp add: bindM_def)
    next
      case (Inr returns)
      with b rf have "wrap_returns (construct (Suc n) env) (destruct (Suc n) env) env p ws []
          returns t = (Inr (outs, c, aux), s1)"
        by (simp add: bindM_def)
      then show ?thesis by (rule wrap_returns_call(1))
    qed
    then show ?thesis using save_call_exists [of env c s1] by simp
  qed
  have "quiet (bindM (get_call (Suc n) env ?h True)
             (\<lambda>main_call. returnM (call_outputs main_call, main_call, [])))"
    by (intro quiet_intros)
  then show "invocations (snd (call_internal (Suc (Suc n)) env p (map (\<lambda>(k, r). (k, PyRef r)) ws)
            input_tps (save_call env c s1))) = invocations s1"
    unfolding call_internal_hit [OF typed ex] quiet_def
    using save_call_invocations [of env c s1] by metis
qed




section \<open>Content ids and history ids of outputs\<close>

lemma bindM_Pair_Inl [simp]: "bindM (Pair (Inl e)) g = Pair (Inl e)"
  by (simp add: bindM_def fun_eq_iff)

lemma cid_with_hid [simp]: "cid (with_hid r h) = cid r"
  by (cases r) simp_all

lemma hid_with_hid [simp]: "hid (with_hid r h) = h"
  by (cases r) simp_all

lemma destruct_ids:
  assumes "destruct n env r t s = (Inr (r', cs), s')"
  shows "cid r' = cid r \<and> hid r' = hid r"
proof (cases n)
  case 0
  with assms show ?thesis by (simp add: destruct.simps raiseM_def)
next
  case (Suc m)
  show ?thesis
  proof (cases r)
    case (AtomRef c h b v)
    with assms Suc show ?thesis by (simp add: destruct.simps destruct_body_def returnM_def)
  next
    case (ListRef c h b es)
    with assms Suc show ?thesis
      by (cases t)
        (auto simp: destruct.simps destruct_body_def returnM_def raiseM_def bindM_def
          split: sum.splits prod.splits)
  qed
qed

lemma wrap_output_nonref:
  assumes "\<And>r. v \<noteq> PyRef r"
  shows "wrap_output C D env output_tps oh k v =
     bindM (lookup output_tps k) (\<lambda>t.
        if t = AtomType then
          bindM (lookup oh k) (\<lambda>h. returnM (wrap_atom env v (Some h), []))
        else
          bindM (C t v) (\<lambda>(start, struct_calls).
          bindM (lookup oh k) (\<lambda>h.
          D (with_hid start h) t)))"
proof (cases v)
  case (PyRef r)
  with assms [of r] show ?thesis by blast
qed (auto simp: wrap_output_def)

lemma wrap_output_ids:
  assumes C: "\<And>t v. resp (C t v)"
    and D: "\<And>r t s r' cs s'. D r t s = (Inr (r', cs), s') \<Longrightarrow> cid r' = cid r \<and> hid r' = hid r"
    and rows: "rows s = rows s' \<or> (\<exists>r. v = PyRef r) \<or> map_of output_tps k = Some AtomType"
    and oh: "map_of oh k = Some h" "map_of oh' k = Some h'"
    and w: "wrap_output C D env output_tps oh k v s = (Inr (r, cs), s1)"
    and w': "wrap_output C D env output_tps oh' k v s' = (Inr (r', cs'), s1')"
  shows "cid r = cid r' \<and> hid r = h \<and> hid r' = h'"
proof (cases "\<exists>r0. v = PyRef r0")
  case True
  then obtain r0 where v: "v = PyRef r0" by blast
  from w w' show ?thesis
    by (auto simp: v wrap_output_def lookup_Some [OF oh(1)] lookup_Some [OF oh(2)] returnM_def)
next
  case False
  then have nr: "\<And>r. v \<noteq> PyRef r" by blast
  show ?thesis
  proof (cases "map_of output_tps k")
    case None
    with w show ?thesis
      by (simp add: wrap_output_nonref [OF nr] lookup_def raiseM_def)
  next
    case (Some t)
    show ?thesis
    proof (cases "t = AtomType")
      case True
      with w w' show ?thesis
        by (auto simp: wrap_output_nonref [OF nr] lookup_Some [OF Some] lookup_Some [OF oh(1)]
            lookup_Some [OF oh(2)] returnM_def wrap_atom_def)
    next
      case False
      with Some nr rows have rows': "rows s = rows s'" by auto
      obtain a s2 where c: "C t v s = (a, s2)" by (cases "C t v s")
      obtain a' s2' where c': "C t v s' = (a', s2')" by (cases "C t v s'")
      have aa: "a' = a" using resp_fst [OF C rows', of t v] c c' by simp
      show ?thesis
      proof (cases a)
        case (Inl e)
        with c have ci: "C t v s = (Inl e, s2)" by simp
        from w False show ?thesis
          by (simp add: wrap_output_nonref [OF nr] lookup_Some [OF Some]
              bindM_Inl [where m = "C t v", OF ci])
      next
        case (Inr x)
        obtain start sc where x: "x = (start, sc)" by (cases x)
        from c Inr x have ci: "C t v s = (Inr (start, sc), s2)" by simp
        from c' aa Inr x have ci': "C t v s' = (Inr (start, sc), s2')" by simp
        from w False have d: "D (with_hid start h) t s2 = (Inr (r, cs), s1)"
          by (simp add: wrap_output_nonref [OF nr] lookup_Some [OF Some] lookup_Some [OF oh(1)]
              bindM_Inr [where m = "C t v", OF ci])
        from w' False have d': "D (with_hid start h') t s2' = (Inr (r', cs'), s1')"
          by (simp add: wrap_output_nonref [OF nr] lookup_Some [OF Some] lookup_Some [OF oh(2)]
              bindM_Inr [where m = "C t v", OF ci'])
        from D [OF d] D [OF d'] show ?thesis by simp
      qed
    qed
  qed
qed

lemma wrap_outputs_ids:
  assumes C: "\<And>t v. resp (C t v)"
    and Dr: "\<And>r t. resp (D r t)"
    and D: "\<And>r t s r' cs s'. D r t s = (Inr (r', cs), s') \<Longrightarrow> cid r' = cid r \<and> hid r' = hid r"
    and oh: "\<forall>k \<in> fst ` set outs. map_of oh k = Some (g k) \<and> map_of oh' k = Some (g' k)"
    and rows: "rows s = rows s' \<or>
               (\<forall>(k, v) \<in> set outs. (\<exists>r. v = PyRef r) \<or> map_of output_tps k = Some AtomType)"
    and w: "wrap_outputs C D env output_tps oh outs s = (Inr (ws, cs), s1)"
    and w': "wrap_outputs C D env output_tps oh' outs s' = (Inr (ws', cs'), s1')"
  shows "map fst ws = map fst outs \<and> map fst ws' = map fst outs \<and>
         (\<forall>i < length outs. cid (snd (ws ! i)) = cid (snd (ws' ! i)) \<and>
            hid (snd (ws ! i)) = g (fst (outs ! i)) \<and> hid (snd (ws' ! i)) = g' (fst (outs ! i)))"
  using oh rows w w'
proof (induction outs arbitrary: s s' ws ws' cs cs' s1 s1')
  case Nil
  then show ?case by (simp add: returnM_def)
next
  case (Cons x outs)
  obtain k v where x: "x = (k, v)" by (cases x)
  let ?wo = "\<lambda>oh. wrap_output C D env output_tps oh k v"
  obtain a t where o: "?wo oh s = (a, t)" by (cases "?wo oh s")
  obtain a' t' where o': "?wo oh' s' = (a', t')" by (cases "?wo oh' s'")
  have rwo: "resp (?wo oh)" "resp (?wo oh')"
    by (rule resp_wrap_output [OF C Dr])+
  have rt: "rows t = rows s"
    using resp_rows [OF rwo(1), of s] o by simp
  have rt': "rows t' = rows s'"
    using resp_rows [OF rwo(2), of s'] o' by simp
  from Cons.prems(1) x have ohk: "map_of oh k = Some (g k)" "map_of oh' k = Some (g' k)"
    by simp_all
  from Cons.prems(3) x o obtain r oc where a: "a = Inr (r, oc)"
    by (cases a) (auto simp: bindM_def)
  from Cons.prems(4) x o' obtain r' oc' where a': "a' = Inr (r', oc')"
    by (cases a') (auto simp: bindM_def)
  let ?rest = "\<lambda>oh. wrap_outputs C D env output_tps oh outs"
  obtain b u where rs: "?rest oh t = (b, u)" by (cases "?rest oh t")
  obtain b' u' where rs': "?rest oh' t' = (b', u')" by (cases "?rest oh' t'")
  from Cons.prems(3) x o a rs obtain wr cr where b: "b = Inr (wr, cr)" and ws: "ws = (k, r) # wr"
    by (cases b) (auto simp: bindM_def returnM_def)
  from Cons.prems(4) x o' a' rs' obtain wr' cr' where b': "b' = Inr (wr', cr')" and ws': "ws' = (k, r') # wr'"
    by (cases b') (auto simp: bindM_def returnM_def)
  have w1: "?wo oh s = (Inr (r, oc), t)" using o a by simp
  have w2: "?wo oh' s' = (Inr (r', oc'), t')" using o' a' by simp
  have rows_hd: "rows s = rows s' \<or> (\<exists>r. v = PyRef r) \<or> map_of output_tps k = Some AtomType"
    using Cons.prems(2) x by auto
  have hd: "cid r = cid r' \<and> hid r = g k \<and> hid r' = g' k"
    by (rule wrap_output_ids [where C = C and D = D and s = s and s' = s'])
      (rule C, erule D, rule rows_hd, rule ohk(1), rule ohk(2), rule w1, rule w2)
  have oh_rest: "\<forall>k \<in> fst ` set outs. map_of oh k = Some (g k) \<and> map_of oh' k = Some (g' k)"
    using Cons.prems(1) by simp
  have rr: "rows t = rows t' \<or>
      (\<forall>(k, v) \<in> set outs. (\<exists>r. v = PyRef r) \<or> map_of output_tps k = Some AtomType)"
    using rt rt' Cons.prems(2) by auto
  have IH: "map fst wr = map fst outs \<and> map fst wr' = map fst outs \<and>
         (\<forall>i < length outs. cid (snd (wr ! i)) = cid (snd (wr' ! i)) \<and>
            hid (snd (wr ! i)) = g (fst (outs ! i)) \<and> hid (snd (wr' ! i)) = g' (fst (outs ! i)))"
    using Cons.IH [OF oh_rest rr, of wr cr u wr' cr' u'] rs rs' b b' by simp
  show ?case
    unfolding ws ws' x using hd IH
    by (auto simp: nth_Cons split: nat.splits)
qed

lemma map_of_output_history_ids:
  "k \<in> set ks \<Longrightarrow> map_of (get_output_history_ids env h ks) k = Some (output_hash env h k)"
  by (induction ks) (auto simp: get_output_history_ids_def)




lemma inc_second_function:
  "run_function (construct (Suc 0) env0) (Suc 0) env0 inc_op [(''x'', AtomType)] [(''x'', atom2)]
     ''inch2'' s =
   (Inr (PyInt 2), s\<lparr>invocations := invocations s @ [(''inc'', ''inch2'')]\<rparr>)"
proof -
  have f: "op_f inc_op = Some (\<lambda>kwargs. case map_of kwargs ''x'' of
                               Some (PyInt i) \<Rightarrow> Inr (PyInt (i + 1), [])
                             | _ \<Rightarrow> Inl TypeError)" "\<not> op_structural inc_op"
      "op_name inc_op = ''inc''"
    by (simp_all add: inc_op_def)
  have c: "construct (Suc 0) env0 AtomType (PyInt 1) = returnM (AtomRef ''ci'' ''di'' True (PyInt 1), [])"
    by (simp add: construct.simps construct_body_def wrap_atom_def env0_def)
  show ?thesis
    by (simp add: run_function_def f Let_def atom2_def unwrap_atom_def
        bindM_def [of "invoke p h r" for p h r] invoke_eq lookup_def c returnM_apply)
qed

lemma inc_second_call:
  assumes "\<not> exists_call s ''inch2''"
  shows "\<exists>c. call_internal (Suc (Suc 0)) env0 inc_op [(''x'', PyRef atom2)] [(''x'', AtomType)] s =
     (Inr ([(''output_0'', out2)], c, []),
      s\<lparr>invocations := invocations s @ [(''inc'', ''inch2'')]\<rparr>)"
proof -
  have typed: "\<forall>k \<in> fst ` set [(''x'', atom2)]. map_of [(''x'', AtomType)] k \<noteq> None"
    by simp
  have h: "get_call_history_id env0 inc_op [(''x'', atom2)] = ''inch2''"
    by (simp add: get_call_history_id_def inc_op_def env0_def atom2_def)
  have miss: "\<not> exists_call s (get_call_history_id env0 inc_op [(''x'', atom2)])"
    using assms by (simp add: h)
  have p: "op_parse_returns inc_op (PyInt 2) = Inr ([(''output_0'', PyInt 2)], [(''output_0'', AtomType)])"
    by (simp add: inc_op_def)
  have w: "wrap_atom env0 (PyInt 2) (Some ''inch2output_0'') = out2"
    by (simp add: wrap_atom_def env0_def out2_def numeral_2_eq_2)
  have o: "output_hash env0 ''inch2'' ''output_0'' = ''inch2output_0''"
    by (simp add: env0_def)
  have wr: "\<exists>c. wrap_returns (construct (Suc 0) env0) (destruct (Suc 0) env0) env0 inc_op
      [(''x'', atom2)] [] (PyInt 2) t = (Inr ([(''output_0'', out2)], c, []), t)" for t
    by (simp add: wrap_returns_def p liftE_def Let_def h get_output_history_ids_def o
        wrap_output_def lookup_def w returnM_apply)
  show ?thesis
    using call_internal_miss [OF typed miss, of 0] wr
    by (simp add: h bindM_Inr [where m = "run_function (construct (Suc 0) env0) (Suc 0) env0
          inc_op [(''x'', AtomType)] [(''x'', atom2)] ''inch2''", OF inc_second_function])
qed


end
